theory Spec2Isabelle
  imports Complex_Main "HOL-Library.Word" "HOL-Library.Multiset"
begin

unbundle bit_operations_syntax

section \<open>Values, columns and series\<close>

text \<open>
  A cell of a column holds a JavaScript value or \<open>null\<close>. The model writes \<open>null\<close> as
  \<open>None\<close> and a value as \<open>Some v\<close>. JavaScript numbers are modelled as real numbers:
  arithmetic is exact, and \<open>NaN\<close> and the infinities are outside the model.

  A \<open>Date\<close> and an opaque object are objects: which object a value is matters to \<open>===\<close>.
  A \<open>Date\<close> is modelled by its identity and its time value (\<open>getTime()\<close>, milliseconds
  since the epoch). The identity is \<open>Some r\<close> for a \<open>Date\<close> that is held by reference (a
  literal, a cell of an object column), and \<open>None\<close> for a \<open>Date\<close> that the read of a date
  column has just built, which is the same object as no other operand. An opaque object
  \<open>Obj r s\<close> is modelled by its identity \<open>r\<close> and by the text \<open>s\<close> that \<open>String(v)\<close> gives for
  it (\<open>[object Object]\<close> for a plain object).

  \<open>Undefined\<close> is JavaScript's \<open>undefined\<close>, which an out-of-range read of an array
  yields.
\<close>

datatype jsval =
    Num real | Str string | Bool bool | DateV "nat option" real | Obj nat string | Undefined

text \<open>\<open>typeof v === 'number'\<close>\<close>

fun typeof_number :: "jsval \<Rightarrow> bool" where
  "typeof_number (Num x) = True"
| "typeof_number v = False"

datatype DType = Float64 | Int32 | Utf8 | Boolean | Date | Object

text \<open>Failures: the two errors of the table contract, a \<open>TypeError\<close> of the language, and
  an error that a worker thread emits.\<close>

datatype error = ColumnNotFound string | IndexOutOfBounds nat nat | TypeError | WorkerError string

text \<open>
  Modelled from the spec: the column classes (\<open>storage/column\<close>, \<open>storage/numeric\<close>,
  \<open>storage/boolean\<close>) are not part of the sources at hand. A column is a logical type tag
  and a sequence of cells; \<open>get(i)\<close> returns the typed value or null and fails with an
  out-of-range error outside \<open>[0, length)\<close>; \<open>nullCount\<close> is the number of null cells;
  \<open>take(indices)\<close> gathers positions into a new column, preserving nulls.
\<close>

record Column =
  dtype :: DType
  cells :: "jsval option list"

definition Column_length :: "Column \<Rightarrow> nat" where
  "Column_length c = length (cells c)"

definition Column_get :: "Column \<Rightarrow> nat \<Rightarrow> error + jsval option" where
  "Column_get c i =
     (if i < Column_length c then Inr (cells c ! i)
      else Inl (IndexOutOfBounds i (Column_length c)))"

definition nullCount :: "Column \<Rightarrow> nat" where
  "nullCount c = length (filter (\<lambda>v. v = None) (cells c))"

fun take_cells :: "jsval option list \<Rightarrow> nat list \<Rightarrow> error + jsval option list" where
  "take_cells vs [] = Inr []"
| "take_cells vs (i # is) =
     (if i < length vs then
        (case take_cells vs is of Inl e \<Rightarrow> Inl e | Inr rest \<Rightarrow> Inr (vs ! i # rest))
      else Inl (IndexOutOfBounds i (length vs)))"

definition Column_take :: "Column \<Rightarrow> nat list \<Rightarrow> error + Column" where
  "Column_take c is =
     (case take_cells (cells c) is of Inl e \<Rightarrow> Inl e
      | Inr vs \<Rightarrow> Inr \<lparr>dtype = dtype c, cells = vs\<rparr>)"

text \<open>
  Modelled from the spec: the builders \<open>Float64Column.from\<close>, \<open>Utf8Column.from\<close>,
  \<open>BooleanColumn.from\<close>, \<open>DateColumn.from\<close> and \<open>ObjectColumn.from\<close> of the storage classes
  (\<open>src/storage\<close>), which are missing. A column is a backing buffer of its type and a validity bitmap with one bit
  per row, 1 for a present value and 0 for null, and \<open>get(i)\<close> returns the typed value or
  null. So a built column is null exactly where the given array is null, and holds each
  value of its type at its position. A date column stores time values and builds a
  \<open>Date\<close> on each read (\<open>tests/unit/storage/cow.test.ts\<close>, "DateColumn slice uses
  subarray"). An object column holds the given values themselves. A present value of
  another runtime type is stored in the typed buffer as some value of the column's type;
  which one is not known (for a number buffer it is \<open>NaN\<close> unless the value converts), and
  the model leaves it open.
\<close>

definition stored_number :: "jsval \<Rightarrow> real" where
  "stored_number = undefined"

definition stored_string :: "jsval \<Rightarrow> string" where
  "stored_string = undefined"

definition stored_boolean :: "jsval \<Rightarrow> bool" where
  "stored_boolean = undefined"

definition stored_time :: "jsval \<Rightarrow> real" where
  "stored_time = undefined"

fun float64_cell :: "jsval option \<Rightarrow> jsval option" where
  "float64_cell None = None"
| "float64_cell (Some (Num x)) = Some (Num x)"
| "float64_cell (Some v) = Some (Num (stored_number v))"

fun utf8_cell :: "jsval option \<Rightarrow> jsval option" where
  "utf8_cell None = None"
| "utf8_cell (Some (Str s)) = Some (Str s)"
| "utf8_cell (Some v) = Some (Str (stored_string v))"

fun boolean_cell :: "jsval option \<Rightarrow> jsval option" where
  "boolean_cell None = None"
| "boolean_cell (Some (Bool b)) = Some (Bool b)"
| "boolean_cell (Some v) = Some (Bool (stored_boolean v))"

fun date_cell :: "jsval option \<Rightarrow> jsval option" where
  "date_cell None = None"
| "date_cell (Some (DateV r t)) = Some (DateV None t)"
| "date_cell (Some v) = Some (DateV None (stored_time v))"

definition Float64Column_from :: "jsval option list \<Rightarrow> Column" where
  "Float64Column_from vs = \<lparr>dtype = Float64, cells = map float64_cell vs\<rparr>"

definition BooleanColumn_from :: "jsval option list \<Rightarrow> Column" where
  "BooleanColumn_from vs = \<lparr>dtype = Boolean, cells = map boolean_cell vs\<rparr>"

definition Utf8Column_from :: "jsval option list \<Rightarrow> Column" where
  "Utf8Column_from vs = \<lparr>dtype = Utf8, cells = map utf8_cell vs\<rparr>"

definition DateColumn_from :: "jsval option list \<Rightarrow> Column" where
  "DateColumn_from vs = \<lparr>dtype = Date, cells = map date_cell vs\<rparr>"

definition ObjectColumn_from :: "jsval option list \<Rightarrow> Column" where
  "ObjectColumn_from vs = \<lparr>dtype = Object, cells = vs\<rparr>"

text \<open>The numeric cells of a column, in column order: the values that pass
  \<open>v !== null && typeof v === 'number'\<close>.\<close>

fun numeric_cells :: "jsval option list \<Rightarrow> real list" where
  "numeric_cells [] = []"
| "numeric_cells (Some (Num x) # vs) = x # numeric_cells vs"
| "numeric_cells (v # vs) = numeric_cells vs"

section \<open>Aggregate expressions: \<open>evaluateColumn\<close>\<close>

text \<open>Each loop \<open>for (i = 0; i < column.length; i++) { v = column.get(i); ... }\<close> visits
  the cells in order; the accumulator of the loop is the state of a fold.\<close>

subsection \<open>\<open>SumAggExpr\<close>\<close>

definition sum_step :: "jsval option \<Rightarrow> real \<Rightarrow> real" where
  "sum_step v tot = (case v of Some (Num x) \<Rightarrow> tot + x | _ \<Rightarrow> tot)"

definition SumAggExpr_evaluateColumn :: "Column \<Rightarrow> real" where
  "SumAggExpr_evaluateColumn column = fold sum_step (cells column) 0"

subsection \<open>\<open>MeanAggExpr\<close>\<close>

definition mean_step :: "jsval option \<Rightarrow> real \<times> nat \<Rightarrow> real \<times> nat" where
  "mean_step v acc =
     (case v of Some (Num x) \<Rightarrow> (fst acc + x, snd acc + 1) | _ \<Rightarrow> acc)"

definition MeanAggExpr_evaluateColumn :: "Column \<Rightarrow> real option" where
  "MeanAggExpr_evaluateColumn column =
     (let (tot, cnt) = fold mean_step (cells column) (0, 0)
      in if cnt = 0 then None else Some (tot / real cnt))"

subsection \<open>\<open>CountAggExpr\<close>\<close>

definition count_step :: "jsval option \<Rightarrow> nat \<Rightarrow> nat" where
  "count_step v cnt = (if v \<noteq> None then cnt + 1 else cnt)"

definition CountAggExpr_evaluateColumn :: "Column \<Rightarrow> nat" where
  "CountAggExpr_evaluateColumn column = fold count_step (cells column) 0"

subsection \<open>\<open>MinAggExpr\<close> and \<open>MaxAggExpr\<close>\<close>

definition min_step :: "jsval option \<Rightarrow> real option \<Rightarrow> real option" where
  "min_step v result =
     (case v of
        Some (Num x) \<Rightarrow>
          (case result of None \<Rightarrow> Some x
           | Some r \<Rightarrow> if x < r then Some x else result)
      | _ \<Rightarrow> result)"

definition MinAggExpr_evaluateColumn :: "Column \<Rightarrow> real option" where
  "MinAggExpr_evaluateColumn column = fold min_step (cells column) None"

definition max_step :: "jsval option \<Rightarrow> real option \<Rightarrow> real option" where
  "max_step v result =
     (case v of
        Some (Num x) \<Rightarrow>
          (case result of None \<Rightarrow> Some x
           | Some r \<Rightarrow> if x > r then Some x else result)
      | _ \<Rightarrow> result)"

definition MaxAggExpr_evaluateColumn :: "Column \<Rightarrow> real option" where
  "MaxAggExpr_evaluateColumn column = fold max_step (cells column) None"

subsection \<open>\<open>StdAggExpr\<close>\<close>

definition std_push :: "jsval option \<Rightarrow> real list \<Rightarrow> real list" where
  "std_push v values = (case v of Some (Num x) \<Rightarrow> values @ [x] | _ \<Rightarrow> values)"

definition StdAggExpr_evaluateColumn :: "Column \<Rightarrow> real option" where
  "StdAggExpr_evaluateColumn column =
     (let values = fold std_push (cells column) []
      in if length values < 2 then None
         else
           let mean = fold (\<lambda>b a. a + b) values 0 / real (length values);
               sumSqDiff = fold (\<lambda>v acc. acc + (v - mean) ^ 2) values 0
           in Some (sqrt (sumSqDiff / real (length values - 1))))"

subsection \<open>\<open>FirstAggExpr\<close> and \<open>LastAggExpr\<close>\<close>

fun first_loop :: "jsval option list \<Rightarrow> jsval option" where
  "first_loop [] = None"
| "first_loop (v # vs) = (if v \<noteq> None then v else first_loop vs)"

definition FirstAggExpr_evaluateColumn :: "Column \<Rightarrow> jsval option" where
  "FirstAggExpr_evaluateColumn column = first_loop (cells column)"

definition LastAggExpr_evaluateColumn :: "Column \<Rightarrow> jsval option" where
  "LastAggExpr_evaluateColumn column = first_loop (rev (cells column))"

subsection \<open>\<open>toComparableKey\<close>, \<open>CountDistinctAggExpr\<close> and \<open>ModeAggExpr\<close>\<close>

text \<open>
  \<open>toComparableKey\<close> builds a string from a type prefix and the value. The model keeps the
  prefix as a constructor and the value itself in place of its decimal text, so two keys
  are equal exactly when the prefixes agree and the values print alike.
\<close>

text \<open>
  Every value that is not a \<open>Date\<close>, a string, a number or a boolean gets the prefix
  \<open>other\<close> and the text \<open>String(v)\<close>: two distinct objects that print alike have one key.
\<close>

datatype key = KDate real | KStr string | KNum real | KBool bool | KOther string

fun toComparableKey :: "jsval \<Rightarrow> key" where
  "toComparableKey (DateV r t) = KDate t"
| "toComparableKey (Str s) = KStr s"
| "toComparableKey (Num x) = KNum x"
| "toComparableKey (Bool b) = KBool b"
| "toComparableKey (Obj r s) = KOther s"
| "toComparableKey Undefined = KOther ''undefined''"

text \<open>
  The values that are compared by value: numbers, strings, booleans, and the dates that
  a date column gives, which stand for their time value.
\<close>

fun by_value :: "jsval \<Rightarrow> bool" where
  "by_value (Num x) = True"
| "by_value (Str s) = True"
| "by_value (Bool b) = True"
| "by_value (DateV None t) = True"
| "by_value v = False"

text \<open>\<open>seen.add(k)\<close> on a \<open>Set\<close>, kept in insertion order.\<close>

definition set_add :: "'a \<Rightarrow> 'a list \<Rightarrow> 'a list" where
  "set_add k seen = (if k \<in> set seen then seen else seen @ [k])"

definition distinct_step :: "jsval option \<Rightarrow> key list \<Rightarrow> key list" where
  "distinct_step v seen = (case v of None \<Rightarrow> seen | Some x \<Rightarrow> set_add (toComparableKey x) seen)"

definition CountDistinctAggExpr_evaluateColumn :: "Column \<Rightarrow> nat" where
  "CountDistinctAggExpr_evaluateColumn column = length (fold distinct_step (cells column) [])"






subsection \<open>Sample standard deviation, as the specification words it\<close>

text \<open>The square root of the sum of squared deviations from the mean, divided by
  \<open>n - 1\<close>.\<close>

definition sample_std :: "real list \<Rightarrow> real" where
  "sample_std xs =
     (let n = length xs; m = sum_list xs / real n
      in sqrt ((\<Sum>x\<leftarrow>xs. (x - m) ^ 2) / real (n - 1)))"

subsection \<open>The most frequent value, as the specification words it\<close>

text \<open>The non-null cells of a column, in column order.\<close>

fun present_cells :: "jsval option list \<Rightarrow> jsval list" where
  "present_cells [] = []"
| "present_cells (None # vs) = present_cells vs"
| "present_cells (Some x # vs) = x # present_cells vs"



text \<open>Incrementing the count of the entry of key \<open>k\<close>.\<close>

definition bump_entry :: "key \<Rightarrow> key \<times> jsval \<times> nat \<Rightarrow> key \<times> jsval \<times> nat" where
  "bump_entry k e = (if fst e = k then (fst e, fst (snd e), snd (snd e) + 1) else e)"

section \<open>Series and tables\<close>

text \<open>
  Modelled from the spec: \<open>Series\<close> and \<open>DataFrame\<close> are not part of the sources at hand.
  A series is a column paired with a display name. A table is an insertion-ordered
  mapping from unique column names to columns of one common length, and the length of a
  table without columns is 0. \<open>col(name)\<close> returns the named column as a series and
  fails with a column-not-found error that carries the requested name.
\<close>

record Series =
  series_name :: string
  series_column :: Column

definition Series_length :: "Series \<Rightarrow> nat" where
  "Series_length s = Column_length (series_column s)"

definition Series_get :: "Series \<Rightarrow> nat \<Rightarrow> error + jsval option" where
  "Series_get s i = Column_get (series_column s) i"

record DataFrame =
  df_columns :: "(string \<times> Column) list"

definition DataFrame_length :: "DataFrame \<Rightarrow> nat" where
  "DataFrame_length df =
     (case df_columns df of [] \<Rightarrow> 0 | (n, c) # rest \<Rightarrow> Column_length c)"

definition DataFrame_col :: "DataFrame \<Rightarrow> string \<Rightarrow> error + Series" where
  "DataFrame_col df n =
     (case map_of (df_columns df) n of
        None \<Rightarrow> Inl (ColumnNotFound n)
      | Some c \<Rightarrow> Inr \<lparr>series_name = n, series_column = c\<rparr>)"

text \<open>The invariant of a table: unique names, one length.\<close>

definition DataFrame_ok :: "DataFrame \<Rightarrow> bool" where
  "DataFrame_ok df \<longleftrightarrow>
     distinct (map fst (df_columns df))
     \<and> list_all (\<lambda>nc. Column_length (snd nc) = DataFrame_length df) (df_columns df)"

section \<open>JavaScript operators on values\<close>

text \<open>
  \<open>a === b\<close>. Numbers, strings and booleans are compared by value. Two \<open>Date\<close> operands,
  or two opaque objects, are equal exactly when they are the same object: a \<open>Date\<close> that
  a read of a date column has just built is equal to no operand, whatever its time value,
  and a \<open>Date\<close> or an object held by reference is equal to itself only.
\<close>

fun strict_eq :: "jsval \<Rightarrow> jsval \<Rightarrow> bool" where
  "strict_eq (Num a) (Num b) = (a = b)"
| "strict_eq (Str a) (Str b) = (a = b)"
| "strict_eq (Bool a) (Bool b) = (a = b)"
| "strict_eq (DateV (Some i) a) (DateV (Some j) b) = (i = j)"
| "strict_eq (Obj i s) (Obj j t) = (i = j)"
| "strict_eq Undefined Undefined = True"
| "strict_eq a b = False"

text \<open>Strings compare by code units, lexicographically.\<close>

fun str_less :: "string \<Rightarrow> string \<Rightarrow> bool" where
  "str_less [] [] = False"
| "str_less [] (y # ys) = True"
| "str_less (x # xs) [] = False"
| "str_less (x # xs) (y # ys) =
     ((of_char x :: nat) < of_char y \<or> (x = y \<and> str_less xs ys))"

text \<open>
  \<open>ToPrimitive\<close> with the hint \<open>number\<close>: a \<open>Date\<close> gives its time value, an opaque object
  the text that \<open>String(v)\<close> gives for it, and a primitive value is itself.
\<close>

fun toPrimitive :: "jsval \<Rightarrow> jsval" where
  "toPrimitive (DateV r t) = Num t"
| "toPrimitive (Obj r s) = Str s"
| "toPrimitive v = v"

text \<open>
  \<open>ToNumber\<close>, with \<open>None\<close> for \<open>NaN\<close>. The conversion of a string parses its text; the
  model leaves that number unspecified.
\<close>

definition StringToNumber :: "string \<Rightarrow> real option" where
  "StringToNumber = undefined"

fun toNumber :: "jsval \<Rightarrow> real option" where
  "toNumber (Num x) = Some x"
| "toNumber (Bool b) = Some (if b then 1 else 0)"
| "toNumber (DateV r t) = Some t"
| "toNumber Undefined = None"
| "toNumber (Str s) = StringToNumber s"
| "toNumber (Obj r s) = StringToNumber s"

text \<open>The relational comparison \<open>a < b\<close> of the language: true, false, or undefined
  (\<open>None\<close>) when an operand converts to \<open>NaN\<close>. Both operands are first converted to
  primitive values.\<close>

definition js_less :: "jsval \<Rightarrow> jsval \<Rightarrow> bool option" where
  "js_less a b =
     (case (toPrimitive a, toPrimitive b) of
        (Str s, Str t) \<Rightarrow> Some (str_less s t)
      | (pa, pb) \<Rightarrow>
        (case (toNumber pa, toNumber pb) of
           (Some x, Some y) \<Rightarrow> Some (x < y)
         | _ \<Rightarrow> None))"

text \<open>Truthiness, and the operators \<open>a && b\<close>, \<open>a || b\<close>, \<open>!v\<close>.\<close>

fun truthy :: "jsval \<Rightarrow> bool" where
  "truthy (Num x) = (x \<noteq> 0)"
| "truthy (Str s) = (s \<noteq> [])"
| "truthy (Bool b) = b"
| "truthy (DateV r t) = True"
| "truthy (Obj r s) = True"
| "truthy Undefined = False"

definition js_and :: "jsval \<Rightarrow> jsval \<Rightarrow> jsval" where
  "js_and a b = (if truthy a then b else a)"

definition js_or :: "jsval \<Rightarrow> jsval \<Rightarrow> jsval" where
  "js_or a b = (if truthy a then a else b)"

definition js_not :: "jsval \<Rightarrow> jsval" where
  "js_not v = Bool (\<not> truthy v)"

section \<open>Expressions\<close>

datatype ArithOp = Add | Sub | Mul | Div | Mod | Pow

datatype CmpOp = Eq | Neq | Gt | Gte | Lt | Lte

datatype LogicOp = And | Or

text \<open>
  The literal, column, arithmetic, comparison, logical and null-test nodes of \<open>expr.ts\<close>.
  \<open>OtherExpr\<close> stands for a node of any other class (string, date, conditional, window,
  aggregate, coalesce, fill-null), given by its \<open>evaluate\<close> method. A literal holds a
  value or \<open>null\<close>.
\<close>

datatype Expr =
    LiteralExpr "jsval option"
  | ColumnExpr string
  | ArithmeticExpr Expr Expr ArithOp
  | ComparisonExpr Expr Expr CmpOp
  | LogicalExpr Expr Expr LogicOp
  | NotExpr Expr
  | IsNullExpr Expr
  | IsNotNullExpr Expr
  | OtherExpr "DataFrame \<Rightarrow> error + Series"

definition buildColumnForValues :: "DType \<Rightarrow> jsval option list \<Rightarrow> Column" where
  "buildColumnForValues dt vs =
     (case dt of
        Float64 \<Rightarrow> Float64Column_from vs
      | Utf8 \<Rightarrow> Utf8Column_from vs
      | Boolean \<Rightarrow> BooleanColumn_from vs
      | Date \<Rightarrow> DateColumn_from vs
      | _ \<Rightarrow> Float64Column_from vs)"

fun detectLiteralDType :: "jsval option \<Rightarrow> DType" where
  "detectLiteralDType (Some (Num x)) = Float64"
| "detectLiteralDType (Some (Str s)) = Utf8"
| "detectLiteralDType (Some (Bool b)) = Boolean"
| "detectLiteralDType (Some (DateV r t)) = Date"
| "detectLiteralDType v = Float64"

text \<open>
  \<open>applyArithOp\<close> on numbers. A quotient or remainder by zero and the powers that
  JavaScript answers with an infinity or \<open>NaN\<close> have no real value; the model leaves them
  unspecified. \<open>%\<close> truncates the quotient towards zero.
\<close>

definition js_trunc :: "real \<Rightarrow> real" where
  "js_trunc q = (if q \<ge> 0 then of_int \<lfloor>q\<rfloor> else of_int \<lceil>q\<rceil>)"

definition js_pow :: "real \<Rightarrow> real \<Rightarrow> real" where
  "js_pow a b =
     (if b = of_int \<lfloor>b\<rfloor> then
        (if b \<ge> 0 then a ^ nat \<lfloor>b\<rfloor>
         else if a = 0 then undefined
         else 1 / a ^ nat (- \<lfloor>b\<rfloor>))
      else if a > 0 then a powr b
      else if a = 0 \<and> b > 0 then 0
      else undefined)"

fun applyArithOp :: "real \<Rightarrow> real \<Rightarrow> ArithOp \<Rightarrow> real" where
  "applyArithOp a b Add = a + b"
| "applyArithOp a b Sub = a - b"
| "applyArithOp a b Mul = a * b"
| "applyArithOp a b Div = (if b = 0 then undefined else a / b)"
| "applyArithOp a b Mod = (if b = 0 then undefined else a - b * js_trunc (a / b))"
| "applyArithOp a b Pow = js_pow a b"

text \<open>
  \<open>applyCmpOp\<close>. \<open>a >= b\<close> holds when \<open>a < b\<close> is false, and \<open>a <= b\<close> when \<open>b < a\<close> is
  false; neither holds when the comparison is undefined.
\<close>

fun applyCmpOp :: "jsval \<Rightarrow> jsval \<Rightarrow> CmpOp \<Rightarrow> bool" where
  "applyCmpOp a b Eq = strict_eq a b"
| "applyCmpOp a b Neq = (\<not> strict_eq a b)"
| "applyCmpOp a b Gt = (js_less b a = Some True)"
| "applyCmpOp a b Gte = (js_less a b = Some False)"
| "applyCmpOp a b Lt = (js_less a b = Some True)"
| "applyCmpOp a b Lte = (js_less b a = Some False)"

text \<open>
  The row loop \<open>for (i = 0; i < len; i++)\<close> whose body reads cells with \<open>get(i)\<close>: the
  first failing read ends the evaluation with its error.
\<close>

primrec collect :: "(nat \<Rightarrow> error + 'a) \<Rightarrow> nat list \<Rightarrow> error + 'a list" where
  "collect f [] = Inr []"
| "collect f (i # is) =
     (case f i of
        Inl e \<Rightarrow> Inl e
      | Inr v \<Rightarrow> (case collect f is of Inl e \<Rightarrow> Inl e | Inr vs \<Rightarrow> Inr (v # vs)))"

definition for_rows :: "nat \<Rightarrow> (nat \<Rightarrow> error + 'a) \<Rightarrow> error + 'a list" where
  "for_rows len f = collect f [0..<len]"

text \<open>One row of a binary node: both cells are read, then combined.\<close>

definition read2 ::
  "Series \<Rightarrow> Series \<Rightarrow> (jsval option \<Rightarrow> jsval option \<Rightarrow> jsval option) \<Rightarrow> nat
     \<Rightarrow> error + jsval option" where
  "read2 leftSeries rightSeries f i =
     (case Series_get leftSeries i of
        Inl e \<Rightarrow> Inl e
      | Inr a \<Rightarrow>
        (case Series_get rightSeries i of Inl e \<Rightarrow> Inl e | Inr b \<Rightarrow> Inr (f a b)))"

text \<open>
  The bodies of the three binary loops. In \<open>ArithmeticExpr\<close> the operands are declared
  numbers; on a non-null operand of another runtime type JavaScript coerces, and the
  model leaves the value of that (non-null) cell unspecified.
\<close>

definition arith_cell :: "ArithOp \<Rightarrow> jsval option \<Rightarrow> jsval option \<Rightarrow> jsval option" where
  "arith_cell op a b =
     (if a = None \<or> b = None then None
      else (case (the a, the b) of
              (Num x, Num y) \<Rightarrow> Some (Num (applyArithOp x y op))
            | _ \<Rightarrow> Some undefined))"

definition cmp_cell :: "CmpOp \<Rightarrow> jsval option \<Rightarrow> jsval option \<Rightarrow> jsval option" where
  "cmp_cell op a b =
     (if a = None \<or> b = None then None
      else Some (Bool (applyCmpOp (the a) (the b) op)))"

definition logic_cell :: "LogicOp \<Rightarrow> jsval option \<Rightarrow> jsval option \<Rightarrow> jsval option" where
  "logic_cell op a b =
     (if a = None \<or> b = None then None
      else if op = And then Some (js_and (the a) (the b))
      else Some (js_or (the a) (the b)))"

definition binary_loop ::
  "(jsval option list \<Rightarrow> Column) \<Rightarrow> (jsval option \<Rightarrow> jsval option \<Rightarrow> jsval option)
     \<Rightarrow> error + Series \<Rightarrow> error + Series \<Rightarrow> error + Series" where
  "binary_loop from f l r =
     (case l of
        Inl e \<Rightarrow> Inl e
      | Inr leftSeries \<Rightarrow>
        (case r of
           Inl e \<Rightarrow> Inl e
         | Inr rightSeries \<Rightarrow>
           (case for_rows (Series_length leftSeries) (read2 leftSeries rightSeries f) of
              Inl e \<Rightarrow> Inl e
            | Inr results \<Rightarrow> Inr \<lparr>series_name = [], series_column = from results\<rparr>)))"

text \<open>The loop of a unary node (\<open>NotExpr\<close>, \<open>IsNullExpr\<close>, \<open>IsNotNullExpr\<close>).\<close>

definition unary_loop ::
  "(jsval option \<Rightarrow> jsval option) \<Rightarrow> error + Series \<Rightarrow> error + Series" where
  "unary_loop f inner =
     (case inner of
        Inl e \<Rightarrow> Inl e
      | Inr innerSeries \<Rightarrow>
        (case for_rows (Series_length innerSeries)
                (\<lambda>i. case Series_get innerSeries i of Inl e \<Rightarrow> Inl e | Inr v \<Rightarrow> Inr (f v)) of
           Inl e \<Rightarrow> Inl e
         | Inr results \<Rightarrow>
             Inr \<lparr>series_name = [], series_column = BooleanColumn_from results\<rparr>))"

text \<open>
  The two special-cased shapes of \<open>ComparisonExpr.evaluate\<close>: a column against a literal,
  read from the column directly, in both operand orders.
\<close>

definition cmp_column_literal ::
  "DataFrame \<Rightarrow> string \<Rightarrow> jsval option \<Rightarrow> CmpOp \<Rightarrow> error + Series" where
  "cmp_column_literal df columnName literal op =
     (case DataFrame_col df columnName of
        Inl e \<Rightarrow> Inl e
      | Inr s \<Rightarrow>
        (let source = series_column s in
         case for_rows (Column_length source)
                (\<lambda>i. case Column_get source i of
                        Inl e \<Rightarrow> Inl e
                      | Inr a \<Rightarrow> Inr (cmp_cell op a literal)) of
           Inl e \<Rightarrow> Inl e
         | Inr results \<Rightarrow>
             Inr \<lparr>series_name = [], series_column = BooleanColumn_from results\<rparr>))"

definition cmp_literal_column ::
  "DataFrame \<Rightarrow> jsval option \<Rightarrow> string \<Rightarrow> CmpOp \<Rightarrow> error + Series" where
  "cmp_literal_column df literal columnName op =
     (case DataFrame_col df columnName of
        Inl e \<Rightarrow> Inl e
      | Inr s \<Rightarrow>
        (let source = series_column s in
         case for_rows (Column_length source)
                (\<lambda>i. case Column_get source i of
                        Inl e \<Rightarrow> Inl e
                      | Inr b \<Rightarrow> Inr (cmp_cell op literal b)) of
           Inl e \<Rightarrow> Inl e
         | Inr results \<Rightarrow>
             Inr \<lparr>series_name = [], series_column = BooleanColumn_from results\<rparr>))"

text \<open>The general path of \<open>ComparisonExpr.evaluate\<close>, on the two evaluated operands.\<close>

definition cmp_general :: "error + Series \<Rightarrow> error + Series \<Rightarrow> CmpOp \<Rightarrow> error + Series" where
  "cmp_general l r op = binary_loop BooleanColumn_from (cmp_cell op) l r"

fun evaluate :: "Expr \<Rightarrow> DataFrame \<Rightarrow> error + Series" where
  "evaluate (LiteralExpr v) df =
     Inr \<lparr>series_name = ''literal'',
          series_column =
            buildColumnForValues (detectLiteralDType v) (replicate (DataFrame_length df) v)\<rparr>"
| "evaluate (ColumnExpr n) df = DataFrame_col df n"
| "evaluate (ArithmeticExpr l r op) df =
     binary_loop Float64Column_from (arith_cell op) (evaluate l df) (evaluate r df)"
| "evaluate (ComparisonExpr l r op) df =
     (case (l, r) of
        (ColumnExpr columnName, LiteralExpr literal) \<Rightarrow>
          cmp_column_literal df columnName literal op
      | (LiteralExpr literal, ColumnExpr columnName) \<Rightarrow>
          cmp_literal_column df literal columnName op
      | _ \<Rightarrow> cmp_general (evaluate l df) (evaluate r df) op)"
| "evaluate (LogicalExpr l r op) df =
     binary_loop BooleanColumn_from (logic_cell op) (evaluate l df) (evaluate r df)"
| "evaluate (NotExpr inner) df =
     unary_loop (\<lambda>v. if v = None then None else Some (js_not (the v))) (evaluate inner df)"
| "evaluate (IsNullExpr inner) df =
     unary_loop (\<lambda>v. Some (Bool (v = None))) (evaluate inner df)"
| "evaluate (IsNotNullExpr inner) df =
     unary_loop (\<lambda>v. Some (Bool (v \<noteq> None))) (evaluate inner df)"
| "evaluate (OtherExpr ev) df = ev df"

text \<open>A table with two numeric columns and a boolean column, each with a null.\<close>

definition df0 :: DataFrame where
  "df0 = \<lparr>df_columns =
     [(''a'', Float64Column_from [Some (Num 1), None, Some (Num 3)]),
      (''b'', Float64Column_from [Some (Num 10), Some (Num 20), None]),
      (''c'', BooleanColumn_from [Some (Bool True), None, Some (Bool False)])]\<rparr>"

text \<open>
  A table with one object column that holds a plain object and a \<open>Date\<close>, both by
  reference.
\<close>

definition df_objects :: DataFrame where
  "df_objects = \<lparr>df_columns =
     [(''o'', ObjectColumn_from [Some (Obj 1 ''[object Object]''), Some (DateV (Some 2) 0)])]\<rparr>"

subsection \<open>Literals that a comparison reads back as they are\<close>

text \<open>
  The general path compares the cell that it reads from the column which
  \<open>LiteralExpr.evaluate\<close> builds; the special-cased path compares the literal itself.
  \<open>kept_literal\<close>: the literal is null, a number, a string or a boolean. \<open>date_literal\<close>: the literal is a \<open>Date\<close>. \<open>column_holds df n literal\<close>: some cell
  of the column \<open>n\<close> of the table is the very object that the literal is. \<open>is_ordering op\<close>:
  the operator is one of \<open>gt\<close>, \<open>gte\<close>, \<open>lt\<close>, \<open>lte\<close>.
\<close>

fun kept_literal :: "jsval option \<Rightarrow> bool" where
  "kept_literal None = True"
| "kept_literal (Some (Num x)) = True"
| "kept_literal (Some (Str s)) = True"
| "kept_literal (Some (Bool b)) = True"
| "kept_literal v = False"

fun date_literal :: "jsval option \<Rightarrow> bool" where
  "date_literal (Some (DateV r t)) = True"
| "date_literal v = False"

definition column_holds :: "DataFrame \<Rightarrow> string \<Rightarrow> jsval option \<Rightarrow> bool" where
  "column_holds df n literal =
     (case (DataFrame_col df n, literal) of
        (Inr s, Some v) \<Rightarrow> list_ex (\<lambda>a. strict_eq a v) (present_cells (cells (series_column s)))
      | _ \<Rightarrow> False)"

fun is_ordering :: "CmpOp \<Rightarrow> bool" where
  "is_ordering Eq = False"
| "is_ordering Neq = False"
| "is_ordering op = True"

section \<open>The worker protocol\<close>

datatype wdtype = float64 | int32 | utf8 | boolean | date

datatype AggType =
  AggSum | AggMean | AggCount | AggCountDistinct | AggMin | AggMax | AggStd | AggFirst | AggLast

text \<open>
  A flat buffer with its element type: the contents of a \<open>Float64Array\<close>, an
  \<open>Int32Array\<close>, a \<open>Uint8Array\<close>, or a plain array of strings. The byte layout of an
  \<open>ArrayBuffer\<close> is not modelled: a typed array built over a buffer has the elements
  of the typed array the buffer was taken from.
\<close>

datatype Buffer =
    Float64Array "real list"
  | Int32Array "32 word list"
  | Uint8Array "8 word list"
  | StringArray "string list"

record AggSpec =
  columnName :: string
  aggType :: AggType

record WorkerColumnData =
  wc_name :: string
  wc_dtype :: wdtype
  wc_data :: Buffer
  wc_nullMask :: "8 word list option"
  wc_length :: nat

record WorkerMessage =
  msg_columns :: "(string \<times> WorkerColumnData) list"
  msg_groups :: "(nat \<times> nat list) list"
  msg_aggSpecs :: "(string \<times> AggSpec) list"
  msg_keyColumns :: "string list"

record GroupResult =
  groupIndex :: nat
  keyValues :: "jsval option list"
  aggValues :: "(string \<times> jsval option) list"

subsection \<open>Integer operators of the language\<close>

text \<open>
  \<open>x >> n\<close> and \<open>x & m\<close> work on the 32-bit two's complement value of their operand. An
  index that is \<open>undefined\<close> (\<open>None\<close>) converts to 0.
\<close>

definition js_sar :: "nat \<Rightarrow> nat \<Rightarrow> int" where
  "js_sar x n = sint (signed_drop_bit n (word_of_nat x :: 32 word))"

definition js_band :: "nat \<Rightarrow> nat \<Rightarrow> nat" where
  "js_band x m = unat ((word_of_nat x :: 32 word) AND word_of_nat m)"

definition idx_sar :: "nat option \<Rightarrow> nat \<Rightarrow> int" where
  "idx_sar index n = (case index of None \<Rightarrow> 0 | Some i \<Rightarrow> js_sar i n)"

definition idx_band :: "nat option \<Rightarrow> nat \<Rightarrow> nat" where
  "idx_band index m = (case index of None \<Rightarrow> 0 | Some i \<Rightarrow> js_band i m)"

text \<open>\<open>ToInt32\<close> of a number, as a store into an \<open>Int32Array\<close> applies it.\<close>

definition trunc_int :: "real \<Rightarrow> int" where
  "trunc_int q = (if q \<ge> 0 then \<lfloor>q\<rfloor> else \<lceil>q\<rceil>)"

definition toInt32 :: "real \<Rightarrow> 32 word" where
  "toInt32 x = word_of_int (trunc_int x)"

subsection \<open>\<open>serializeColumn\<close>\<close>

text \<open>
  \<open>maskBytes[i >> 3] |= 1 << (i & 7)\<close> on a \<open>Uint8Array\<close>: a write outside the array is
  ignored. The bit index is at most 7, so the shifted bit fits the byte.
\<close>

definition mask_set :: "nat \<Rightarrow> 8 word list \<Rightarrow> 8 word list" where
  "mask_set i maskBytes =
     (let b = js_sar i 3 in
      if 0 \<le> b \<and> nat b < length maskBytes
      then maskBytes[nat b := (maskBytes ! nat b) OR push_bit (js_band i 7) 1]
      else maskBytes)"

definition mask_step :: "jsval option list \<Rightarrow> nat \<Rightarrow> 8 word list \<Rightarrow> 8 word list" where
  "mask_step vs i maskBytes = (if vs ! i \<noteq> None then mask_set i maskBytes else maskBytes)"

definition build_mask :: "jsval option list \<Rightarrow> 8 word list" where
  "build_mask vs =
     fold (mask_step vs) [0..<length vs] (replicate ((length vs + 7) div 8) 0)"

text \<open>
  The element stored for a cell, by buffer type. A cell whose runtime type is not the
  column's is converted by the store; where the conversion has no value in the model
  (\<open>NaN\<close>, the decimal text of a number) the element is left unspecified.
\<close>

definition float64_element :: "jsval option \<Rightarrow> real" where
  "float64_element v =
     (case v of None \<Rightarrow> 0 | Some (DateV r t) \<Rightarrow> t | Some x \<Rightarrow> the (toNumber x))"

definition int32_element :: "jsval option \<Rightarrow> 32 word" where
  "int32_element v = (case v of None \<Rightarrow> 0 | Some x \<Rightarrow> toInt32 (the (toNumber x)))"

definition uint8_element :: "jsval option \<Rightarrow> 8 word" where
  "uint8_element v = (case v of None \<Rightarrow> 0 | Some x \<Rightarrow> if truthy x then 1 else 0)"

definition string_element :: "jsval option \<Rightarrow> string" where
  "string_element v =
     (case v of
        None \<Rightarrow> []
      | Some (Str s) \<Rightarrow> s
      | Some (Num x) \<Rightarrow> undefined
      | Some (Bool b) \<Rightarrow> (if b then ''true'' else ''false'')
      | Some x \<Rightarrow> [])"

definition serializeColumn :: "string \<Rightarrow> Column \<Rightarrow> WorkerColumnData" where
  "serializeColumn name column =
     (let len = Column_length column;
          nullMask = (if nullCount column > 0 then Some (build_mask (cells column)) else None)
      in case dtype column of
           Float64 \<Rightarrow>
             \<lparr>wc_name = name, wc_dtype = float64,
              wc_data = Float64Array (map float64_element (cells column)),
              wc_nullMask = nullMask, wc_length = len\<rparr>
         | Date \<Rightarrow>
             \<lparr>wc_name = name, wc_dtype = date,
              wc_data = Float64Array (map float64_element (cells column)),
              wc_nullMask = nullMask, wc_length = len\<rparr>
         | Int32 \<Rightarrow>
             \<lparr>wc_name = name, wc_dtype = int32,
              wc_data = Int32Array (map int32_element (cells column)),
              wc_nullMask = nullMask, wc_length = len\<rparr>
         | Boolean \<Rightarrow>
             \<lparr>wc_name = name, wc_dtype = boolean,
              wc_data = Uint8Array (map uint8_element (cells column)),
              wc_nullMask = nullMask, wc_length = len\<rparr>
         | _ \<Rightarrow>
             \<lparr>wc_name = name, wc_dtype = utf8,
              wc_data = StringArray (map string_element (cells column)),
              wc_nullMask = nullMask, wc_length = len\<rparr>)"

subsection \<open>The worker: reading a serialized column\<close>

text \<open>
  The worker's pre-processed column: the serialized column with \<open>dataArr\<close>, the typed
  array over \<open>data\<close> (absent for \<open>utf8\<close>), and \<open>nullMaskArr\<close>, the bytes of the mask.
\<close>

record ProcessedColumn =
  p_dtype :: wdtype
  p_data :: Buffer
  p_dataArr :: "Buffer option"
  p_nullMaskArr :: "8 word list option"

definition process_column :: "WorkerColumnData \<Rightarrow> ProcessedColumn" where
  "process_column colData =
     \<lparr>p_dtype = wc_dtype colData,
      p_data = wc_data colData,
      p_dataArr = (if wc_dtype colData = utf8 then None else Some (wc_data colData)),
      p_nullMaskArr = wc_nullMask colData\<rparr>"

text \<open>\<open>data[index]\<close>: the element, or \<open>undefined\<close> outside the array.\<close>

fun element_value :: "Buffer \<Rightarrow> nat \<Rightarrow> jsval" where
  "element_value (Float64Array xs) i = Num (xs ! i)"
| "element_value (Int32Array ws) i = Num (of_int (sint (ws ! i)))"
| "element_value (Uint8Array bs) i = Num (of_nat (unat (bs ! i)))"
| "element_value (StringArray ss) i = Str (ss ! i)"

fun buffer_length :: "Buffer \<Rightarrow> nat" where
  "buffer_length (Float64Array xs) = length xs"
| "buffer_length (Int32Array ws) = length ws"
| "buffer_length (Uint8Array bs) = length bs"
| "buffer_length (StringArray ss) = length ss"

definition buffer_read :: "Buffer \<Rightarrow> nat option \<Rightarrow> jsval" where
  "buffer_read buf index =
     (case index of
        None \<Rightarrow> Undefined
      | Some i \<Rightarrow> if i < buffer_length buf then element_value buf i else Undefined)"

text \<open>
  The test \<open>!((nullMask[byteIndex] >> bitIndex) & 1)\<close>; a byte read outside the mask is
  \<open>undefined\<close>, which shifts to 0.
\<close>

definition mask_null :: "8 word list \<Rightarrow> nat option \<Rightarrow> bool" where
  "mask_null nullMask index =
     (let byteIndex = idx_sar index 3; bitIndex = idx_band index 7 in
      if 0 \<le> byteIndex \<and> nat byteIndex < length nullMask
      then (drop_bit bitIndex (nullMask ! nat byteIndex)) AND 1 = 0
      else True)"

definition getNumericValue ::
  "Buffer option \<Rightarrow> 8 word list option \<Rightarrow> nat option \<Rightarrow> wdtype \<Rightarrow> jsval option" where
  "getNumericValue data nullMask index dt =
     (if (case nullMask of None \<Rightarrow> False | Some m \<Rightarrow> mask_null m index) then None
      else if dt = float64 \<or> dt = int32 \<or> dt = date
      then Some (buffer_read (the data) index)
      else None)"

definition getStringValue ::
  "Buffer \<Rightarrow> 8 word list option \<Rightarrow> nat option \<Rightarrow> jsval option" where
  "getStringValue data nullMask index =
     (if (case nullMask of None \<Rightarrow> False | Some m \<Rightarrow> mask_null m index) then None
      else Some (buffer_read data index))"

definition getValue :: "ProcessedColumn \<Rightarrow> nat option \<Rightarrow> jsval option" where
  "getValue colData index =
     (if p_dtype colData = utf8
      then getStringValue (p_data colData) (p_nullMaskArr colData) index
      else getNumericValue (p_dataArr colData) (p_nullMaskArr colData) index (p_dtype colData))"

subsection \<open>The worker: \<open>computeAgg\<close>\<close>

definition w_sum_step :: "jsval option \<Rightarrow> real \<times> bool \<Rightarrow> real \<times> bool" where
  "w_sum_step v acc = (case v of Some (Num x) \<Rightarrow> (fst acc + x, True) | _ \<Rightarrow> acc)"

definition w_mean_step :: "jsval option \<Rightarrow> real \<times> nat \<Rightarrow> real \<times> nat" where
  "w_mean_step v acc = (case v of Some (Num x) \<Rightarrow> (fst acc + x, snd acc + 1) | _ \<Rightarrow> acc)"

definition w_count_step :: "jsval option \<Rightarrow> nat \<Rightarrow> nat" where
  "w_count_step v n = (if v \<noteq> None then n + 1 else n)"

definition w_distinct_step :: "jsval option \<Rightarrow> jsval list \<Rightarrow> jsval list" where
  "w_distinct_step v seen = (case v of None \<Rightarrow> seen | Some x \<Rightarrow> set_add x seen)"

definition w_min_step :: "jsval option \<Rightarrow> real option \<Rightarrow> real option" where
  "w_min_step v result =
     (case v of
        Some (Num x) \<Rightarrow>
          (case result of None \<Rightarrow> Some x | Some r \<Rightarrow> if x < r then Some x else result)
      | _ \<Rightarrow> result)"

definition w_max_step :: "jsval option \<Rightarrow> real option \<Rightarrow> real option" where
  "w_max_step v result =
     (case v of
        Some (Num x) \<Rightarrow>
          (case result of None \<Rightarrow> Some x | Some r \<Rightarrow> if x > r then Some x else result)
      | _ \<Rightarrow> result)"

definition w_std_step :: "jsval option \<Rightarrow> real \<times> real \<times> nat \<Rightarrow> real \<times> real \<times> nat" where
  "w_std_step v acc =
     (case v of
        Some (Num x) \<Rightarrow> (fst acc + x, fst (snd acc) + x * x, snd (snd acc) + 1)
      | _ \<Rightarrow> acc)"

definition computeAgg :: "ProcessedColumn \<Rightarrow> nat list \<Rightarrow> AggType \<Rightarrow> jsval option" where
  "computeAgg colData indices agg =
     (let vs = map (\<lambda>i. getValue colData (Some i)) indices in
      case agg of
        AggSum \<Rightarrow>
          (let (tot, hasValue) = fold w_sum_step vs (0, False)
           in if hasValue then Some (Num tot) else None)
      | AggMean \<Rightarrow>
          (let (tot, n) = fold w_mean_step vs (0, 0)
           in if n > 0 then Some (Num (tot / real n)) else None)
      | AggCount \<Rightarrow> Some (Num (real (fold w_count_step vs 0)))
      | AggCountDistinct \<Rightarrow> Some (Num (real (length (fold w_distinct_step vs []))))
      | AggMin \<Rightarrow> map_option Num (fold w_min_step vs None)
      | AggMax \<Rightarrow> map_option Num (fold w_max_step vs None)
      | AggStd \<Rightarrow>
          (let (s, sumSq, n) = fold w_std_step vs (0, 0, 0)
           in if n < 2 then None
              else let mean = s / real n; variance = sumSq / real n - mean * mean
                   in Some (Num (sqrt variance)))
      | AggFirst \<Rightarrow> first_loop vs
      | AggLast \<Rightarrow> first_loop (rev vs))"

subsection \<open>The worker: the message handler\<close>

definition group_result ::
  "(string \<times> ProcessedColumn) list \<Rightarrow> (string \<times> AggSpec) list \<Rightarrow> string list
     \<Rightarrow> nat \<times> nat list \<Rightarrow> GroupResult" where
  "group_result processedColumns aggEntries keyCols g =
     (let indices = snd g;
          firstIndex = (case indices of [] \<Rightarrow> None | i # rest \<Rightarrow> Some i)
      in \<lparr>groupIndex = fst g,
          keyValues =
            map (\<lambda>keyCol. case map_of processedColumns keyCol of
                             Some colData \<Rightarrow> getValue colData firstIndex
                           | None \<Rightarrow> None) keyCols,
          aggValues =
            map (\<lambda>(outputName, spec).
                   (outputName,
                    case map_of processedColumns (columnName spec) of
                      Some colData \<Rightarrow> computeAgg colData indices (aggType spec)
                    | None \<Rightarrow> None)) aggEntries\<rparr>)"

definition on_message :: "WorkerMessage \<Rightarrow> GroupResult list" where
  "on_message msg =
     (let processedColumns = map (\<lambda>(name, colData). (name, process_column colData)) (msg_columns msg)
      in map (group_result processedColumns (msg_aggSpecs msg) (msg_keyColumns msg))
           (msg_groups msg))"

subsection \<open>What the worker should read\<close>

text \<open>
  A column is typed when every non-null cell has the runtime type of the column's logical
  type; a cell of an \<open>int32\<close> column is an integer of 32 bits. The worker represents a
  date by its time value.
\<close>

fun cell_has_type :: "DType \<Rightarrow> jsval \<Rightarrow> bool" where
  "cell_has_type Float64 (Num r) = True"
| "cell_has_type Int32 (Num r) = (r = of_int \<lfloor>r\<rfloor> \<and> - (2 ^ 31) \<le> \<lfloor>r\<rfloor> \<and> \<lfloor>r\<rfloor> < 2 ^ 31)"
| "cell_has_type Utf8 (Str s) = True"
| "cell_has_type Boolean (Bool b) = True"
| "cell_has_type Date (DateV r t) = True"
| "cell_has_type dt v = False"

definition Column_typed :: "Column \<Rightarrow> bool" where
  "Column_typed c \<longleftrightarrow>
     list_all (\<lambda>v. case v of None \<Rightarrow> True | Some x \<Rightarrow> cell_has_type (dtype c) x) (cells c)"

fun worker_repr :: "jsval \<Rightarrow> jsval" where
  "worker_repr (DateV r t) = Num t"
| "worker_repr v = v"

section \<open>The parallel aggregation coordinator\<close>

subsection \<open>\<open>partitionGroups\<close>\<close>

text \<open>
  \<open>Array.from({length: workerCount}, () => [])\<close> has \<open>workerCount\<close> empty partitions, none
  when the count is not positive. \<open>i % workerCount\<close> is \<open>NaN\<close> for a count of 0 and
  otherwise takes the sign of \<open>i\<close>; \<open>partitions[...]!.push\<close> throws a \<open>TypeError\<close> when
  the slot does not exist. The worker count is an integer.
\<close>

type_synonym partition = "(nat \<times> nat list) list"

definition js_rem :: "nat \<Rightarrow> int \<Rightarrow> nat option" where
  "js_rem i m = (if m = 0 then None else Some (i mod nat \<bar>m\<bar>))"

definition push_group ::
  "(string \<times> nat list) list \<Rightarrow> int \<Rightarrow> nat \<Rightarrow> error + partition list \<Rightarrow> error + partition list" where
  "push_group groupEntries workerCount i st =
     (case st of
        Inl e \<Rightarrow> Inl e
      | Inr partitions \<Rightarrow>
        (case js_rem i workerCount of
           None \<Rightarrow> Inl TypeError
         | Some p \<Rightarrow>
           if p < length partitions
           then Inr (partitions[p := partitions ! p @ [(i, snd (groupEntries ! i))]])
           else Inl TypeError))"

definition partitionGroups ::
  "(string \<times> nat list) list \<Rightarrow> int \<Rightarrow> error + partition list" where
  "partitionGroups groupEntries workerCount =
     fold (push_group groupEntries workerCount) [0..<length groupEntries]
       (Inr (replicate (nat workerCount) []))"

subsection \<open>Promises\<close>

text \<open>
  A promise is fulfilled, rejected, or never settles. \<open>Promise.all\<close> rejects with the
  reason of the promise that rejects first in time, stays pending while none rejects and
  one is pending, and otherwise is fulfilled with the values in array order. \<open>order\<close>
  lists array positions in the order in which the promises settle; positions that it
  omits follow in array order.
\<close>

datatype 'a outcome = Fulfilled 'a | Rejected error | Pending

fun rejection_of :: "'a outcome \<Rightarrow> error option" where
  "rejection_of (Rejected e) = Some e"
| "rejection_of x = None"

fun fulfilled_values :: "'a outcome list \<Rightarrow> 'a list option" where
  "fulfilled_values [] = Some []"
| "fulfilled_values (Fulfilled v # xs) = map_option ((#) v) (fulfilled_values xs)"
| "fulfilled_values (x # xs) = None"

definition rejections :: "nat list \<Rightarrow> 'a outcome list \<Rightarrow> error list" where
  "rejections order promises =
     List.map_filter (\<lambda>p. if p < length promises then rejection_of (promises ! p) else None)
       (order @ [0..<length promises])"

definition promise_all :: "nat list \<Rightarrow> 'a outcome list \<Rightarrow> 'a list outcome" where
  "promise_all order promises =
     (case rejections order promises of
        e # rest \<Rightarrow> Rejected e
      | [] \<Rightarrow>
        (case fulfilled_values promises of Some vs \<Rightarrow> Fulfilled vs | None \<Rightarrow> Pending))"

subsection \<open>\<open>parallelAgg\<close>\<close>

text \<open>
  What a worker thread does is outside the coordinator's code. A worker that runs
  \<open>WORKER_CODE\<close> without a fault answers the message that it is posted with the result of
  the message handler; a faulty worker emits an error, or never answers.
\<close>

datatype fault = Crash error | Hang

definition worker_promise ::
  "(nat \<Rightarrow> fault option) \<Rightarrow> (partition \<Rightarrow> WorkerMessage) \<Rightarrow> nat \<times> partition
     \<Rightarrow> GroupResult list outcome" where
  "worker_promise faults message pp =
     (if snd pp = [] then Fulfilled []
      else (case faults (fst pp) of
              None \<Rightarrow> Fulfilled (on_message (message (snd pp)))
            | Some (Crash e) \<Rightarrow> Rejected e
            | Some Hang \<Rightarrow> Pending))"

definition neededColumns :: "string list \<Rightarrow> (string \<times> AggSpec) list \<Rightarrow> string list" where
  "neededColumns keyColumnNames aggSpecs =
     fold set_add (map (\<lambda>(outputName, spec). columnName spec) aggSpecs)
       (fold set_add keyColumnNames [])"

definition serializedColumns ::
  "(string \<times> Column) list \<Rightarrow> string list \<Rightarrow> (string \<times> WorkerColumnData) list" where
  "serializedColumns sourceColumns needed =
     List.map_filter
       (\<lambda>colName. map_option (\<lambda>column. (colName, serializeColumn colName column))
                    (map_of sourceColumns colName)) needed"

text \<open>
  \<open>parallelAgg\<close>. Besides the arguments of the source (the parameter \<open>keyColumns\<close> is
  not used by it and is left out), the model takes what the run time decides: the order
  in which the worker promises settle, the faults of the workers, and the default worker
  count. The module \<open>worker_threads\<close> is taken to load.
\<close>

definition parallelAgg ::
  "nat list \<Rightarrow> (nat \<Rightarrow> fault option) \<Rightarrow> int
     \<Rightarrow> (string \<times> nat list) list \<Rightarrow> string list \<Rightarrow> (string \<times> AggSpec) list
     \<Rightarrow> (string \<times> Column) list \<Rightarrow> int option \<Rightarrow> GroupResult list outcome" where
  "parallelAgg order faults defaultWorkerCount groupEntries keyColumnNames aggSpecs
       sourceColumns optWorkerCount =
     (let workerCount =
            min (case optWorkerCount of None \<Rightarrow> defaultWorkerCount | Some w \<Rightarrow> w)
                (int (length groupEntries));
          columns = serializedColumns sourceColumns (neededColumns keyColumnNames aggSpecs);
          message = (\<lambda>partition.
            \<lparr>msg_columns = columns, msg_groups = partition, msg_aggSpecs = aggSpecs,
             msg_keyColumns = keyColumnNames\<rparr>)
      in case partitionGroups groupEntries workerCount of
           Inl e \<Rightarrow> Rejected e
         | Inr partitions \<Rightarrow>
           (case promise_all order
                   (map (worker_promise faults message)
                      (zip [0..<length partitions] partitions)) of
              Rejected e \<Rightarrow> Rejected e
            | Pending \<Rightarrow> Pending
            | Fulfilled results \<Rightarrow> Fulfilled (sort_key groupIndex (concat results))))"

subsection \<open>The synchronous path, per group\<close>

text \<open>
  Modelled from the spec: the group-by engine is not part of the sources at hand. It
  evaluates each requested aggregate once per group, over only that group's row
  indices; the aggregate kinds of the worker vocabulary name the aggregate expression
  classes (\<open>_aggName\<close>).
\<close>

definition evaluateColumn :: "AggType \<Rightarrow> Column \<Rightarrow> jsval option" where
  "evaluateColumn agg column =
     (case agg of
        AggSum \<Rightarrow> Some (Num (SumAggExpr_evaluateColumn column))
      | AggMean \<Rightarrow> map_option Num (MeanAggExpr_evaluateColumn column)
      | AggCount \<Rightarrow> Some (Num (real (CountAggExpr_evaluateColumn column)))
      | AggCountDistinct \<Rightarrow> Some (Num (real (CountDistinctAggExpr_evaluateColumn column)))
      | AggMin \<Rightarrow> map_option Num (MinAggExpr_evaluateColumn column)
      | AggMax \<Rightarrow> map_option Num (MaxAggExpr_evaluateColumn column)
      | AggStd \<Rightarrow> map_option Num (StdAggExpr_evaluateColumn column)
      | AggFirst \<Rightarrow> FirstAggExpr_evaluateColumn column
      | AggLast \<Rightarrow> LastAggExpr_evaluateColumn column)"

definition sync_group_agg :: "AggType \<Rightarrow> Column \<Rightarrow> nat list \<Rightarrow> error + jsval option" where
  "sync_group_agg agg column indices =
     (case Column_take column indices of
        Inl e \<Rightarrow> Inl e
      | Inr groupColumn \<Rightarrow> Inr (evaluateColumn agg groupColumn))"

subsection \<open>Round-robin partitions, as the specification words them\<close>

text \<open>
  Of the first \<open>k\<close> groups, partition \<open>p\<close> of \<open>w\<close> holds the groups at the positions
  \<open>i\<close> with \<open>i mod w = p\<close>, in ascending order, each with its position.
\<close>

definition round_robin :: "(string \<times> nat list) list \<Rightarrow> nat \<Rightarrow> nat \<Rightarrow> partition list" where
  "round_robin groupEntries w k =
     map (\<lambda>p. map (\<lambda>i. (i, snd (groupEntries ! i))) (filter (\<lambda>i. i mod w = p) [0..<k]))
       [0..<w]"

text \<open>
  The worker count that \<open>parallelAgg\<close> uses, and the result that a worker computes for
  one group from the columns that \<open>parallelAgg\<close> serializes.
\<close>

definition effective_workerCount :: "int option \<Rightarrow> int \<Rightarrow> nat \<Rightarrow> int" where
  "effective_workerCount optWorkerCount defaultWorkerCount n =
     min (case optWorkerCount of None \<Rightarrow> defaultWorkerCount | Some w \<Rightarrow> w) (int n)"

definition worker_group_result ::
  "(string \<times> Column) list \<Rightarrow> string list \<Rightarrow> (string \<times> AggSpec) list \<Rightarrow> nat \<times> nat list
     \<Rightarrow> GroupResult" where
  "worker_group_result sourceColumns keyColumnNames aggSpecs =
     group_result
       (map (\<lambda>(name, colData). (name, process_column colData))
          (serializedColumns sourceColumns (neededColumns keyColumnNames aggSpecs)))
       aggSpecs keyColumnNames"

subsection \<open>An example: sales by region\<close>

text \<open>The rows \<open>East/100, West/200, East/150, West/300, East/250\<close>, grouped by region.\<close>

definition sales_columns :: "(string \<times> Column) list" where
  "sales_columns =
     [(''region'', Utf8Column_from [Some (Str ''East''), Some (Str ''West''), Some (Str ''East''),
                                   Some (Str ''West''), Some (Str ''East'')]),
      (''amount'', Float64Column_from [Some (Num 100), Some (Num 200), Some (Num 150),
                                      Some (Num 300), Some (Num 250)])]"

definition sales_groups :: "(string \<times> nat list) list" where
  "sales_groups = [(''East'', [0, 2, 4]), (''West'', [1, 3])]"

definition sales_specs :: "(string \<times> AggSpec) list" where
  "sales_specs = [(''total'', \<lparr>columnName = ''amount'', aggType = AggSum\<rparr>)]"

section \<open>Aggregation primitives skip nulls\<close>

lemma fold_sum_step: "fold sum_step vs a = a + sum_list (numeric_cells vs)"
  by (induction vs arbitrary: a rule: numeric_cells.induct) (simp_all add: sum_step_def)

lemma fold_mean_step:
  "fold mean_step vs acc =
     (fst acc + sum_list (numeric_cells vs), snd acc + length (numeric_cells vs))"
  by (induction vs arbitrary: acc rule: numeric_cells.induct) (simp_all add: mean_step_def)

lemma numeric_cells_all_null:
  "\<forall>v \<in> set vs. v = None \<Longrightarrow> numeric_cells vs = []"
  by (induction vs rule: numeric_cells.induct) simp_all

lemma fold_min_step_some:
  "fold min_step vs (Some r) = Some (fold min (numeric_cells vs) r)"
  by (induction vs arbitrary: r rule: numeric_cells.induct)
     (simp_all add: min_step_def min_def)

lemma fold_max_step_some:
  "fold max_step vs (Some r) = Some (fold max (numeric_cells vs) r)"
  by (induction vs arbitrary: r rule: numeric_cells.induct)
     (simp_all add: max_step_def max_def)

lemma fold_min_step:
  "fold min_step vs None =
     (if numeric_cells vs = [] then None else Some (Min (set (numeric_cells vs))))"
proof (induction vs rule: numeric_cells.induct)
  case (2 x vs)
  have "fold min_step (Some (Num x) # vs) None = fold min_step vs (Some x)"
    by (simp add: min_step_def)
  also have "\<dots> = Some (Min (set (x # numeric_cells vs)))"
    by (simp only: fold_min_step_some Min.set_eq_fold)
  finally show ?case by simp
qed (simp_all add: min_step_def)

lemma fold_max_step:
  "fold max_step vs None =
     (if numeric_cells vs = [] then None else Some (Max (set (numeric_cells vs))))"
proof (induction vs rule: numeric_cells.induct)
  case (2 x vs)
  have "fold max_step (Some (Num x) # vs) None = fold max_step vs (Some x)"
    by (simp add: max_step_def)
  also have "\<dots> = Some (Max (set (x # numeric_cells vs)))"
    by (simp only: fold_max_step_some Max.set_eq_fold)
  finally show ?case by simp
qed (simp_all add: max_step_def)

text \<open>
  Claim C3. The aggregation primitives skip nulls: \<open>sum\<close> is the sum of the non-null
  numeric cells, so it is 0 on an empty or all-null column, and
  \<open>sum([1, null, 3, null, 5]) = 9\<close>; \<open>mean\<close>, \<open>min\<close> and \<open>max\<close> are the mean, the least
  and the greatest of the non-null numeric cells, and \<open>null\<close> on an empty or all-null
  column.
\<close>

theorem agg_primitives_skip_nulls:
  "SumAggExpr_evaluateColumn c = sum_list (numeric_cells (cells c))
   \<and> MeanAggExpr_evaluateColumn c =
       (if numeric_cells (cells c) = [] then None
        else Some (sum_list (numeric_cells (cells c)) / real (length (numeric_cells (cells c)))))
   \<and> MinAggExpr_evaluateColumn c =
       (if numeric_cells (cells c) = [] then None else Some (Min (set (numeric_cells (cells c)))))
   \<and> MaxAggExpr_evaluateColumn c =
       (if numeric_cells (cells c) = [] then None else Some (Max (set (numeric_cells (cells c)))))
   \<and> ((\<forall>v \<in> set (cells c). v = None) \<longrightarrow>
        SumAggExpr_evaluateColumn c = 0 \<and> MeanAggExpr_evaluateColumn c = None
        \<and> MinAggExpr_evaluateColumn c = None \<and> MaxAggExpr_evaluateColumn c = None)
   \<and> SumAggExpr_evaluateColumn
        (Float64Column_from [Some (Num 1), None, Some (Num 3), None, Some (Num 5)]) = 9
   \<and> SumAggExpr_evaluateColumn (Float64Column_from []) = 0"
proof -
  let ?xs = "numeric_cells (cells c)"
  have s: "SumAggExpr_evaluateColumn c = sum_list ?xs"
    by (simp add: SumAggExpr_evaluateColumn_def fold_sum_step)
  have m: "MeanAggExpr_evaluateColumn c =
       (if ?xs = [] then None else Some (sum_list ?xs / real (length ?xs)))"
    by (simp add: MeanAggExpr_evaluateColumn_def fold_mean_step)
  have mi: "MinAggExpr_evaluateColumn c = (if ?xs = [] then None else Some (Min (set ?xs)))"
    by (simp only: MinAggExpr_evaluateColumn_def fold_min_step)
  have ma: "MaxAggExpr_evaluateColumn c = (if ?xs = [] then None else Some (Max (set ?xs)))"
    by (simp only: MaxAggExpr_evaluateColumn_def fold_max_step)
  have n: "(\<forall>v \<in> set (cells c). v = None) \<longrightarrow>
        SumAggExpr_evaluateColumn c = 0 \<and> MeanAggExpr_evaluateColumn c = None
        \<and> MinAggExpr_evaluateColumn c = None \<and> MaxAggExpr_evaluateColumn c = None"
    using numeric_cells_all_null[of "cells c"] by (simp add: s m mi ma)
  have e1: "SumAggExpr_evaluateColumn
        (Float64Column_from [Some (Num 1), None, Some (Num 3), None, Some (Num 5)]) = 9"
    by (simp add: SumAggExpr_evaluateColumn_def Float64Column_from_def sum_step_def)
  have e2: "SumAggExpr_evaluateColumn (Float64Column_from []) = 0"
    by (simp add: SumAggExpr_evaluateColumn_def Float64Column_from_def)
  show ?thesis using s m mi ma n e1 e2 by blast
qed

theorem agg_primitives_skip_nulls_witness:
  "cells (Float64Column_from [None, None]) = [None, None]
   \<and> SumAggExpr_evaluateColumn (Float64Column_from [None, None]) = 0
   \<and> MeanAggExpr_evaluateColumn (Float64Column_from [None, None]) = None
   \<and> MinAggExpr_evaluateColumn (Float64Column_from [None, None]) = None
   \<and> MaxAggExpr_evaluateColumn (Float64Column_from [None, None]) = None
   \<and> MeanAggExpr_evaluateColumn (Float64Column_from [Some (Num 2), None, Some (Num 4)]) = Some 3
   \<and> MinAggExpr_evaluateColumn (Float64Column_from [Some (Num 3), None, Some (Num 1), None, Some (Num 5)]) = Some 1
   \<and> MaxAggExpr_evaluateColumn (Float64Column_from [Some (Num 3), None, Some (Num 1), None, Some (Num 5)]) = Some 5"
proof -
  have h: "\<forall>v \<in> set (cells (Float64Column_from [None, None])). v = None"
    by (simp add: Float64Column_from_def)
  show ?thesis
    using h agg_primitives_skip_nulls[of "Float64Column_from [None, None]"]
      agg_primitives_skip_nulls[of "Float64Column_from [Some (Num 2), None, Some (Num 4)]"]
      agg_primitives_skip_nulls[of "Float64Column_from [Some (Num 3), None, Some (Num 1), None, Some (Num 5)]"]
    by (simp add: Float64Column_from_def)
qed

section \<open>The \<open>std\<close> aggregate is the sample standard deviation\<close>

lemma fold_std_push: "fold std_push vs acc = acc @ numeric_cells vs"
  by (induction vs arbitrary: acc rule: numeric_cells.induct) (simp_all add: std_push_def)

lemma fold_plus_sum_list: "fold (\<lambda>b a. a + b) xs (a::real) = a + sum_list xs"
  by (induction xs arbitrary: a) simp_all

lemma fold_sq_diff:
  "fold (\<lambda>v acc. acc + (v - m) ^ 2) xs (a::real) = a + (\<Sum>x\<leftarrow>xs. (x - m) ^ 2)"
  by (induction xs arbitrary: a) simp_all

text \<open>
  Claim C6. On a column with at least two non-null numeric cells, \<open>std\<close> is the sample
  standard deviation of those cells (divisor \<open>n - 1\<close>); with fewer than two it is
  \<open>null\<close>.
\<close>

theorem std_is_sample_std:
  "StdAggExpr_evaluateColumn c =
     (if length (numeric_cells (cells c)) < 2 then None
      else Some (sample_std (numeric_cells (cells c))))"
  by (simp add: StdAggExpr_evaluateColumn_def sample_std_def Let_def fold_std_push
      fold_plus_sum_list fold_sq_diff)

theorem std_is_sample_std_witness:
  "StdAggExpr_evaluateColumn (Float64Column_from [Some (Num 1), None, Some (Num 3)]) = Some (sqrt 2)
   \<and> StdAggExpr_evaluateColumn (Float64Column_from [Some (Num 1), None]) = None"
  using std_is_sample_std[of "Float64Column_from [Some (Num 1), None, Some (Num 3)]"]
    std_is_sample_std[of "Float64Column_from [Some (Num 1), None]"]
  by (simp add: Float64Column_from_def sample_std_def)

section \<open>The \<open>mode\<close> aggregate\<close>

text \<open>
  The keys tell apart the values that are compared by value: numbers, strings, booleans,
  and the dates read from a date column.
\<close>

lemma toComparableKey_inj:
  "by_value a \<Longrightarrow> by_value b \<Longrightarrow> toComparableKey a = toComparableKey b \<Longrightarrow> a = b"
  by (cases a; cases b) (auto elim: by_value.elims)

lemma inj_on_toComparableKey: "\<forall>x \<in> A. by_value x \<Longrightarrow> inj_on toComparableKey A"
  by (rule inj_onI) (simp add: toComparableKey_inj)




lemma bump_entry_fst [simp]: "fst (bump_entry k e) = fst e"
  by (simp add: bump_entry_def)

lemma bump_entry_val [simp]: "fst (snd (bump_entry k e)) = fst (snd e)"
  by (simp add: bump_entry_def)









text \<open>
  The hypothesis holds on the columns of numbers, strings, booleans and dates: a column
  all of whose non-null cells are compared by value.
\<close>

lemma by_value_cells_inj:
  "\<forall>x \<in> set (present_cells vs). by_value x \<Longrightarrow>
     inj_on toComparableKey (set (present_cells vs))"
  by (rule inj_on_toComparableKey)

lemma typed_cells_by_value:
  "by_value (the (float64_cell (Some v)))" "by_value (the (utf8_cell (Some v)))"
  "by_value (the (boolean_cell (Some v)))" "by_value (the (date_cell (Some v)))"
  by (cases v; simp)+

section \<open>The row loops of the expression nodes\<close>

lemma collect_map:
  "(\<And>i. i \<in> set is \<Longrightarrow> f i = Inr (g i)) \<Longrightarrow> collect f is = Inr (map g is)"
  by (induction "is") simp_all

lemma collect_Inr_D:
  "collect f is = Inr vs \<Longrightarrow> length vs = length is \<and> (\<forall>j < length is. f (is ! j) = Inr (vs ! j))"
proof (induction "is" arbitrary: vs)
  case Nil then show ?case by simp
next
  case (Cons i "is")
  from Cons.prems obtain v vs' where v: "f i = Inr v" "collect f is = Inr vs'" "vs = v # vs'"
    by (auto split: sum.splits)
  note ih = Cons.IH [OF v(2)]
  have "length vs = length (i # is)" using ih v(3) by simp
  moreover have "\<forall>j < length (i # is). f ((i # is) ! j) = Inr (vs ! j)"
  proof (intro allI impI)
    fix j assume "j < length (i # is)"
    then show "f ((i # is) ! j) = Inr (vs ! j)"
      using ih v(1,3) by (cases j) simp_all
  qed
  ultimately show ?case by blast
qed

lemma map_nth_upt: "map (\<lambda>i. h (xs ! i)) [0..<length xs] = map h xs"
  by (rule nth_equalityI) simp_all

lemma for_rows_map:
  "(\<And>i. i < len \<Longrightarrow> f i = Inr (g i)) \<Longrightarrow> for_rows len f = Inr (map g [0..<len])"
  unfolding for_rows_def by (rule collect_map) simp

lemma for_rows_Inr_D:
  assumes "for_rows len f = Inr vs"
  shows "length vs = len" and "\<And>i. i < len \<Longrightarrow> f i = Inr (vs ! i)"
  using collect_Inr_D [OF assms [unfolded for_rows_def]] by auto

lemma Series_get_cell:
  "Series_get s i = (if i < Series_length s then Inr (cells (series_column s) ! i)
                     else Inl (IndexOutOfBounds i (Series_length s)))"
  by (simp add: Series_get_def Column_get_def Series_length_def)

lemma binary_loop_total:
  assumes len: "Series_length ls = Series_length rs"
  shows "binary_loop from f (Inr ls) (Inr rs) =
           Inr \<lparr>series_name = [],
                series_column = from (map (\<lambda>i. f (cells (series_column ls) ! i)
                                                (cells (series_column rs) ! i))
                                         [0..<Series_length ls])\<rparr>"
proof -
  have "for_rows (Series_length ls) (read2 ls rs f) =
          Inr (map (\<lambda>i. f (cells (series_column ls) ! i) (cells (series_column rs) ! i))
                 [0..<Series_length ls])"
    by (rule for_rows_map) (simp add: read2_def Series_get_cell len)
  then show ?thesis by (simp add: binary_loop_def)
qed

lemma binary_loop_null:
  assumes ev: "binary_loop from f (Inr ls) (Inr rs) = Inr res"
    and mk: "\<And>vs. length (cells (from vs)) = length vs"
    and mk_null: "\<And>vs j. j < length vs \<Longrightarrow> vs ! j = None \<Longrightarrow> cells (from vs) ! j = None"
    and f: "\<And>a b. a = None \<or> b = None \<Longrightarrow> f a b = None"
    and i: "i < Series_length res"
    and null: "Series_get ls i = Inr None \<or> Series_get rs i = Inr None"
  shows "Series_get res i = Inr None"
proof -
  from ev obtain results where r: "for_rows (Series_length ls) (read2 ls rs f) = Inr results"
    and res: "res = \<lparr>series_name = [], series_column = from results\<rparr>"
    by (auto simp: binary_loop_def split: sum.splits)
  have len: "length results = Series_length ls" using for_rows_Inr_D(1) [OF r] .
  have ilt: "i < Series_length ls" using i res len mk
    by (simp add: Series_length_def Column_length_def)
  have "read2 ls rs f i = Inr (results ! i)" using for_rows_Inr_D(2) [OF r ilt] .
  then obtain a b where ab: "Series_get ls i = Inr a" "Series_get rs i = Inr b"
      "results ! i = f a b"
    by (auto simp: read2_def split: sum.splits)
  then have "results ! i = None" using null f by auto
  then have "cells (from results) ! i = None" using mk_null ilt len by simp
  then show ?thesis using res mk i len
    by (simp add: Series_get_cell Series_length_def Column_length_def)
qed

lemma unary_loop_total:
  "unary_loop f (Inr s) =
     Inr \<lparr>series_name = [],
          series_column = BooleanColumn_from (map f (cells (series_column s)))\<rparr>"
proof -
  have "for_rows (Series_length s)
          (\<lambda>i. case Series_get s i of Inl e \<Rightarrow> Inl e | Inr v \<Rightarrow> Inr (f v)) =
        Inr (map (\<lambda>i. f (cells (series_column s) ! i)) [0..<Series_length s])"
    by (rule for_rows_map) (simp add: Series_get_cell)
  moreover have "map (\<lambda>i. f (cells (series_column s) ! i)) [0..<Series_length s] =
      map f (cells (series_column s))"
    by (simp add: Series_length_def Column_length_def map_nth_upt)
  ultimately show ?thesis by (simp add: unary_loop_def)
qed

lemma for_rows_column:
  "for_rows (Column_length c)
     (\<lambda>i. case Column_get c i of Inl e \<Rightarrow> Inl e | Inr v \<Rightarrow> Inr (h v)) =
   Inr (map h (cells c))"
proof -
  have "for_rows (Column_length c)
     (\<lambda>i. case Column_get c i of Inl e \<Rightarrow> Inl e | Inr v \<Rightarrow> Inr (h v)) =
     Inr (map (\<lambda>i. h (cells c ! i)) [0..<Column_length c])"
    by (rule for_rows_map) (simp add: Column_get_def)
  moreover have "map (\<lambda>i. h (cells c ! i)) [0..<Column_length c] = map h (cells c)"
    by (simp add: Column_length_def map_nth_upt)
  ultimately show ?thesis by simp
qed

section \<open>Null propagation\<close>

text \<open>A built column has the length of the given array and is null exactly where it is.\<close>

lemma from_cells [simp]:
  "cells (Float64Column_from vs) = map float64_cell vs"
  "cells (BooleanColumn_from vs) = map boolean_cell vs"
  "cells (Utf8Column_from vs) = map utf8_cell vs"
  "cells (DateColumn_from vs) = map date_cell vs"
  "cells (ObjectColumn_from vs) = vs"
  by (simp_all add: Float64Column_from_def BooleanColumn_from_def Utf8Column_from_def
      DateColumn_from_def ObjectColumn_from_def)

lemma float64_cell_None [simp]: "float64_cell v = None \<longleftrightarrow> v = None"
  by (cases v rule: float64_cell.cases) simp_all

lemma boolean_cell_None [simp]: "boolean_cell v = None \<longleftrightarrow> v = None"
  by (cases v rule: boolean_cell.cases) simp_all

lemma utf8_cell_None [simp]: "utf8_cell v = None \<longleftrightarrow> v = None"
  by (cases v rule: utf8_cell.cases) simp_all

lemma date_cell_None [simp]: "date_cell v = None \<longleftrightarrow> v = None"
  by (cases v rule: date_cell.cases) simp_all

lemma length_buildColumnForValues [simp]:
  "length (cells (buildColumnForValues dt vs)) = length vs"
  by (cases dt) (simp_all add: buildColumnForValues_def)

lemma buildColumnForValues_None:
  "i < length vs \<Longrightarrow> cells (buildColumnForValues dt vs) ! i = None \<longleftrightarrow> vs ! i = None"
  by (cases dt) (simp_all add: buildColumnForValues_def)

lemma cell_fun_null:
  "a = None \<or> b = None \<Longrightarrow> arith_cell aop a b = None"
  "a = None \<or> b = None \<Longrightarrow> cmp_cell cop a b = None"
  "a = None \<or> b = None \<Longrightarrow> logic_cell lop a b = None"
  by (auto simp: arith_cell_def cmp_cell_def logic_cell_def)

lemma cmp_column_literal_eq:
  "DataFrame_col df n = Inr s \<Longrightarrow>
   cmp_column_literal df n literal op =
     Inr \<lparr>series_name = [],
          series_column = BooleanColumn_from
            (map (\<lambda>a. cmp_cell op a literal) (cells (series_column s)))\<rparr>"
  by (simp add: cmp_column_literal_def Let_def for_rows_column)

lemma cmp_literal_column_eq:
  "DataFrame_col df n = Inr s \<Longrightarrow>
   cmp_literal_column df literal n op =
     Inr \<lparr>series_name = [],
          series_column = BooleanColumn_from
            (map (\<lambda>b. cmp_cell op literal b) (cells (series_column s)))\<rparr>"
  by (simp add: cmp_literal_column_def Let_def for_rows_column)

lemma evaluate_Comparison_cases:
  "evaluate (ComparisonExpr l r op) df =
     (if (\<exists>n v. l = ColumnExpr n \<and> r = LiteralExpr v) then
        cmp_column_literal df (case l of ColumnExpr n \<Rightarrow> n) (case r of LiteralExpr v \<Rightarrow> v) op
      else if (\<exists>n v. l = LiteralExpr v \<and> r = ColumnExpr n) then
        cmp_literal_column df (case l of LiteralExpr v \<Rightarrow> v) (case r of ColumnExpr n \<Rightarrow> n) op
      else cmp_general (evaluate l df) (evaluate r df) op)"
  by (cases l; cases r) auto

lemma comparison_null:
  assumes l: "evaluate l df = Inr ls" and r: "evaluate r df = Inr rs"
    and ev: "evaluate (ComparisonExpr l r op) df = Inr res"
    and i: "i < Series_length res"
    and null: "Series_get ls i = Inr None \<or> Series_get rs i = Inr None"
  shows "Series_get res i = Inr None"
proof -
  consider (cl) n v where "l = ColumnExpr n" "r = LiteralExpr v"
    | (lc) n v where "l = LiteralExpr v" "r = ColumnExpr n"
    | (gen) "evaluate (ComparisonExpr l r op) df = cmp_general (evaluate l df) (evaluate r df) op"
    using evaluate_Comparison_cases [of l r op df] by (auto split: if_splits)
  then show ?thesis
  proof cases
    case cl
    have col: "DataFrame_col df n = Inr ls" using l cl by simp
    have res: "res = \<lparr>series_name = [], series_column = BooleanColumn_from
            (map (\<lambda>a. cmp_cell op a v) (cells (series_column ls)))\<rparr>"
      using ev cl cmp_column_literal_eq [OF col] by simp
    have ilen: "i < length (cells (series_column ls))"
      using i res by (simp add: Series_length_def Column_length_def)
    have rsv: "series_column rs =
        buildColumnForValues (detectLiteralDType v) (replicate (DataFrame_length df) v)"
      using r cl by auto
    have "cells (series_column ls) ! i = None \<or> v = None"
      using null ilen rsv
      by (auto simp: Series_get_cell Series_length_def Column_length_def
          buildColumnForValues_None split: if_splits)
    then have "cmp_cell op (cells (series_column ls) ! i) v = None"
      by (rule cell_fun_null)
    then show ?thesis using res ilen
      by (simp add: Series_get_cell Series_length_def Column_length_def)
  next
    case lc
    have col: "DataFrame_col df n = Inr rs" using r lc by simp
    have res: "res = \<lparr>series_name = [], series_column = BooleanColumn_from
            (map (\<lambda>b. cmp_cell op v b) (cells (series_column rs)))\<rparr>"
      using ev lc cmp_literal_column_eq [OF col] by simp
    have ilen: "i < length (cells (series_column rs))"
      using i res by (simp add: Series_length_def Column_length_def)
    have lsv: "series_column ls =
        buildColumnForValues (detectLiteralDType v) (replicate (DataFrame_length df) v)"
      using l lc by auto
    have "v = None \<or> cells (series_column rs) ! i = None"
      using null ilen lsv
      by (auto simp: Series_get_cell Series_length_def Column_length_def
          buildColumnForValues_None split: if_splits)
    then have "cmp_cell op v (cells (series_column rs) ! i) = None"
      by (rule cell_fun_null)
    then show ?thesis using res ilen
      by (simp add: Series_get_cell Series_length_def Column_length_def)
  next
    case gen
    then have "binary_loop BooleanColumn_from (cmp_cell op) (Inr ls) (Inr rs) = Inr res"
      using ev l r by (simp add: cmp_general_def)
    then show ?thesis
      by (rule binary_loop_null) (simp_all add: cell_fun_null i null)
  qed
qed

lemma comparison_total:
  assumes l: "evaluate l df = Inr ls" and r: "evaluate r df = Inr rs"
    and len: "Series_length ls = Series_length rs"
  shows "\<exists>res. evaluate (ComparisonExpr l r op) df = Inr res
           \<and> Series_length res = Series_length ls"
proof -
  consider (cl) n v where "l = ColumnExpr n" "r = LiteralExpr v"
    | (lc) n v where "l = LiteralExpr v" "r = ColumnExpr n"
    | (gen) "evaluate (ComparisonExpr l r op) df = cmp_general (evaluate l df) (evaluate r df) op"
    using evaluate_Comparison_cases [of l r op df] by (auto split: if_splits)
  then show ?thesis
  proof cases
    case cl
    have col: "DataFrame_col df n = Inr ls" using l cl by simp
    show ?thesis using cl cmp_column_literal_eq [OF col]
      by (simp add: Series_length_def Column_length_def)
  next
    case lc
    have col: "DataFrame_col df n = Inr rs" using r lc by simp
    show ?thesis using lc cmp_literal_column_eq [OF col] len
      by (simp add: Series_length_def Column_length_def)
  next
    case gen
    show ?thesis using gen l r binary_loop_total [OF len]
      by (simp add: cmp_general_def Series_length_def Column_length_def)
  qed
qed

text \<open>
  Claim C2. For a binary arithmetic, comparison or logical node whose operands evaluate
  to series, the result is null at every row at which either operand is null, and on
  operands of equal length the node evaluates; \<open>not\<close> of a null cell is null.
\<close>

theorem null_propagation:
  "(evaluate l df = Inr ls \<and> evaluate r df = Inr rs
      \<and> node \<in> {ArithmeticExpr l r aop, ComparisonExpr l r cop, LogicalExpr l r lop} \<longrightarrow>
      (Series_length ls = Series_length rs \<longrightarrow>
         (\<exists>res. evaluate node df = Inr res \<and> Series_length res = Series_length ls))
      \<and> (\<forall>res i. evaluate node df = Inr res \<and> i < Series_length res
            \<and> (Series_get ls i = Inr None \<or> Series_get rs i = Inr None)
            \<longrightarrow> Series_get res i = Inr None))
   \<and> (evaluate inner df = Inr s \<longrightarrow>
        (\<exists>res. evaluate (NotExpr inner) df = Inr res \<and> Series_length res = Series_length s
           \<and> (\<forall>i. Series_get s i = Inr None \<longrightarrow> Series_get res i = Inr None)))"
proof (intro conjI impI)
  assume a: "evaluate l df = Inr ls \<and> evaluate r df = Inr rs
      \<and> node \<in> {ArithmeticExpr l r aop, ComparisonExpr l r cop, LogicalExpr l r lop}"
    and len: "Series_length ls = Series_length rs"
  then consider "node = ArithmeticExpr l r aop" | "node = ComparisonExpr l r cop"
    | "node = LogicalExpr l r lop" by auto
  then show "\<exists>res. evaluate node df = Inr res \<and> Series_length res = Series_length ls"
  proof cases
    case 1
    then show ?thesis using a binary_loop_total [OF len]
      by (simp add: Series_length_def Column_length_def)
  next
    case 2
    then show ?thesis using a comparison_total [OF _ _ len] by simp
  next
    case 3
    then show ?thesis using a binary_loop_total [OF len]
      by (simp add: Series_length_def Column_length_def)
  qed
next
  assume a: "evaluate l df = Inr ls \<and> evaluate r df = Inr rs
      \<and> node \<in> {ArithmeticExpr l r aop, ComparisonExpr l r cop, LogicalExpr l r lop}"
  show "\<forall>res i. evaluate node df = Inr res \<and> i < Series_length res
            \<and> (Series_get ls i = Inr None \<or> Series_get rs i = Inr None)
            \<longrightarrow> Series_get res i = Inr None"
  proof (intro allI impI)
    fix res i
    assume b: "evaluate node df = Inr res \<and> i < Series_length res
            \<and> (Series_get ls i = Inr None \<or> Series_get rs i = Inr None)"
    from a consider "node = ArithmeticExpr l r aop" | "node = ComparisonExpr l r cop"
      | "node = LogicalExpr l r lop" by auto
    then show "Series_get res i = Inr None"
    proof cases
      case 1
      then have "binary_loop Float64Column_from (arith_cell aop) (Inr ls) (Inr rs) = Inr res"
        using a b by simp
      then show ?thesis
        by (rule binary_loop_null) (simp_all add: cell_fun_null b)
    next
      case 2
      then show ?thesis using a b comparison_null [of l df ls r rs cop res i] by simp
    next
      case 3
      then have "binary_loop BooleanColumn_from (logic_cell lop) (Inr ls) (Inr rs) = Inr res"
        using a b by simp
      then show ?thesis
        by (rule binary_loop_null) (simp_all add: cell_fun_null b)
    qed
  qed
next
  assume s: "evaluate inner df = Inr s"
  let ?res = "\<lparr>series_name = [], series_column = BooleanColumn_from
      (map (\<lambda>v. if v = None then None else Some (js_not (the v))) (cells (series_column s)))\<rparr>"
  have ev: "evaluate (NotExpr inner) df = Inr ?res"
    using s by (simp add: unary_loop_total)
  have len: "Series_length ?res = Series_length s"
    by (simp add: Series_length_def Column_length_def)
  have "\<forall>i. Series_get s i = Inr None \<longrightarrow> Series_get ?res i = Inr None"
    by (auto simp: Series_get_cell Series_length_def Column_length_def split: if_splits)
  then show "\<exists>res. evaluate (NotExpr inner) df = Inr res \<and> Series_length res = Series_length s
           \<and> (\<forall>i. Series_get s i = Inr None \<longrightarrow> Series_get res i = Inr None)"
    using ev len by blast
qed

theorem null_propagation_witness:
  "evaluate (ArithmeticExpr (ColumnExpr ''a'') (ColumnExpr ''b'') Add) df0 =
     Inr \<lparr>series_name = [], series_column = Float64Column_from [Some (Num 11), None, None]\<rparr>
   \<and> Series_get \<lparr>series_name = [],
         series_column = Float64Column_from [Some (Num 11), None, None]\<rparr> 1 = Inr None
   \<and> evaluate (ComparisonExpr (ColumnExpr ''a'') (ColumnExpr ''b'') Lt) df0 =
     Inr \<lparr>series_name = [], series_column = BooleanColumn_from [Some (Bool True), None, None]\<rparr>
   \<and> Series_get \<lparr>series_name = [],
         series_column = BooleanColumn_from [Some (Bool True), None, None]\<rparr> 2 = Inr None
   \<and> evaluate (NotExpr (ColumnExpr ''c'')) df0 =
     Inr \<lparr>series_name = [],
          series_column = BooleanColumn_from [Some (Bool False), None, Some (Bool True)]\<rparr>"
proof -
  let ?a = "\<lparr>series_name = ''a'',
      series_column = Float64Column_from [Some (Num 1), None, Some (Num 3)]\<rparr>"
  let ?b = "\<lparr>series_name = ''b'',
      series_column = Float64Column_from [Some (Num 10), Some (Num 20), None]\<rparr>"
  let ?c = "\<lparr>series_name = ''c'',
      series_column = BooleanColumn_from [Some (Bool True), None, Some (Bool False)]\<rparr>"
  let ?r1 = "\<lparr>series_name = [],
      series_column = Float64Column_from [Some (Num 11), None, None]\<rparr>"
  let ?r2 = "\<lparr>series_name = [],
      series_column = BooleanColumn_from [Some (Bool True), None, None]\<rparr>"
  have a: "evaluate (ColumnExpr ''a'') df0 = Inr ?a" by code_simp
  have b: "evaluate (ColumnExpr ''b'') df0 = Inr ?b" by code_simp
  have c: "evaluate (ColumnExpr ''c'') df0 = Inr ?c" by code_simp
  have e1: "evaluate (ArithmeticExpr (ColumnExpr ''a'') (ColumnExpr ''b'') Add) df0 = Inr ?r1"
    by code_simp
  have e2: "evaluate (ComparisonExpr (ColumnExpr ''a'') (ColumnExpr ''b'') Lt) df0 = Inr ?r2"
    by code_simp
  have na: "Series_get ?a 1 = Inr None" by code_simp
  have nb: "Series_get ?b 2 = Inr None" by code_simp
  have i1: "1 < Series_length ?r1" by code_simp
  have i2: "2 < Series_length ?r2" by code_simp
  have g1: "Series_get ?r1 1 = Inr None"
    using null_propagation [where l = "ColumnExpr ''a''" and r = "ColumnExpr ''b''"
        and df = df0 and ls = ?a and rs = ?b and aop = Add and cop = Lt and lop = And
        and node = "ArithmeticExpr (ColumnExpr ''a'') (ColumnExpr ''b'') Add"
        and inner = "ColumnExpr ''c''" and s = ?c] a b e1 na i1
    by blast
  have g2: "Series_get ?r2 2 = Inr None"
    using null_propagation [where l = "ColumnExpr ''a''" and r = "ColumnExpr ''b''"
        and df = df0 and ls = ?a and rs = ?b and aop = Add and cop = Lt and lop = And
        and node = "ComparisonExpr (ColumnExpr ''a'') (ColumnExpr ''b'') Lt"
        and inner = "ColumnExpr ''c''" and s = ?c] a b e2 nb i2
    by blast
  have e3: "evaluate (NotExpr (ColumnExpr ''c'')) df0 =
     Inr \<lparr>series_name = [],
          series_column = BooleanColumn_from [Some (Bool False), None, Some (Bool True)]\<rparr>"
    by code_simp
  show ?thesis using e1 g1 e2 g2 e3 by blast
qed

section \<open>The special-cased comparison against a literal\<close>

lemma DataFrame_col_length:
  assumes ok: "DataFrame_ok df" and col: "DataFrame_col df n = Inr s"
  shows "Series_length s = DataFrame_length df"
proof -
  from col obtain c where c: "map_of (df_columns df) n = Some c" "series_column s = c"
    by (auto simp: DataFrame_col_def split: option.splits)
  then have "(n, c) \<in> set (df_columns df)" by (simp add: map_of_SomeD)
  then have "Column_length c = DataFrame_length df"
    using ok by (auto simp: DataFrame_ok_def list_all_iff)
  then show ?thesis using c by (simp add: Series_length_def)
qed

lemma strict_eq_sym: "strict_eq a b = strict_eq b a"
  by (induction a b rule: strict_eq.induct) auto

lemma strict_eq_fresh_date [simp]:
  "strict_eq a (DateV None t) = False" "strict_eq (DateV None t) a = False"
  by (cases a; simp)+

text \<open>The ordering of a \<open>Date\<close> is that of its time value, whichever object it is.\<close>

lemma js_less_date:
  "js_less a (DateV r t) = js_less a (Num t)"
  "js_less (DateV r t) a = js_less (Num t) a"
  by (simp_all add: js_less_def)

text \<open>The cells of the column that \<open>LiteralExpr.evaluate\<close> builds.\<close>

lemma literal_cells_kept:
  "kept_literal v \<Longrightarrow>
   cells (buildColumnForValues (detectLiteralDType v) (replicate len v)) = replicate len v"
  by (cases v rule: kept_literal.cases) (simp_all add: buildColumnForValues_def)

lemma literal_cells_date:
  "detectLiteralDType (Some (DateV r t)) = Date"
  "cells (buildColumnForValues Date (replicate len (Some (DateV r t)))) =
     replicate len (Some (DateV None t))"
  by (simp_all add: buildColumnForValues_def)

lemma literal_cells_object:
  "detectLiteralDType (Some (Obj r s)) = Float64"
  "cells (buildColumnForValues Float64 (replicate len (Some (Obj r s)))) =
     replicate len (Some (Num (stored_number (Obj r s))))"
  by (simp_all add: buildColumnForValues_def)

text \<open>
  A \<open>Date\<close> literal and the \<open>Date\<close> read back from its column compare alike with a cell,
  unless the operator is \<open>eq\<close> or \<open>neq\<close> and the cell is the literal itself.
\<close>

lemma cmp_cell_date_read_back:
  assumes "is_ordering op \<or> a = None \<or> \<not> strict_eq (the a) (DateV r t)"
  shows "cmp_cell op a (Some (DateV None t)) = cmp_cell op a (Some (DateV r t))"
    and "cmp_cell op (Some (DateV None t)) a = cmp_cell op (Some (DateV r t)) a"
proof -
  show "cmp_cell op a (Some (DateV None t)) = cmp_cell op a (Some (DateV r t))"
    using assms by (cases op) (auto simp: cmp_cell_def js_less_date)
  show "cmp_cell op (Some (DateV None t)) a = cmp_cell op (Some (DateV r t)) a"
    using assms strict_eq_sym [of "DateV r t"]
    by (cases op) (auto simp: cmp_cell_def js_less_date)
qed

lemma present_cells_mem: "Some a \<in> set vs \<Longrightarrow> a \<in> set (present_cells vs)"
  by (induction vs rule: present_cells.induct) auto

lemma column_holds_D:
  assumes col: "DataFrame_col df n = Inr s" and nh: "\<not> column_holds df n (Some v)"
    and i: "i < length (cells (series_column s))"
  shows "cells (series_column s) ! i = None \<or> \<not> strict_eq (the (cells (series_column s) ! i)) v"
proof (cases "cells (series_column s) ! i")
  case None then show ?thesis by simp
next
  case (Some a)
  then have "Some a \<in> set (cells (series_column s))" using i by (metis nth_mem)
  then have "a \<in> set (present_cells (cells (series_column s)))" by (rule present_cells_mem)
  then have "\<not> strict_eq a v" using nh col by (auto simp: column_holds_def list_ex_iff)
  then show ?thesis using Some by simp
qed

text \<open>
  Claim C9 does not hold for every literal. The column \<open>o\<close> of the table holds a plain
  object, and the literal is that object. The special-cased path compares the cell with
  the literal, and \<open>eq\<close> is true in the first row. The general path builds the literal's
  column, a \<open>float64\<close> column since the literal is neither a number, a string, a boolean
  nor a \<open>Date\<close>, and compares the cell with the number read from it: \<open>eq\<close> is false.
\<close>

theorem comparison_special_case_differs_on_object_literal:
  "DataFrame_ok df_objects
   \<and> evaluate (ComparisonExpr (ColumnExpr ''o'')
         (LiteralExpr (Some (Obj 1 ''[object Object]''))) Eq) df_objects =
       Inr \<lparr>series_name = [],
            series_column = BooleanColumn_from [Some (Bool True), Some (Bool False)]\<rparr>
   \<and> cmp_general (evaluate (ColumnExpr ''o'') df_objects)
         (evaluate (LiteralExpr (Some (Obj 1 ''[object Object]''))) df_objects) Eq =
       Inr \<lparr>series_name = [],
            series_column = BooleanColumn_from [Some (Bool False), Some (Bool False)]\<rparr>
   \<and> evaluate (ComparisonExpr (ColumnExpr ''o'')
         (LiteralExpr (Some (Obj 1 ''[object Object]''))) Eq) df_objects \<noteq>
       cmp_general (evaluate (ColumnExpr ''o'') df_objects)
         (evaluate (LiteralExpr (Some (Obj 1 ''[object Object]''))) df_objects) Eq"
proof -
  let ?o = "Obj 1 ''[object Object]''"
  let ?s = "\<lparr>series_name = ''o'', series_column =
      ObjectColumn_from [Some ?o, Some (DateV (Some 2) 0)]\<rparr>"
  let ?lit = "\<lparr>series_name = ''literal'', series_column =
      buildColumnForValues (detectLiteralDType (Some ?o)) (replicate 2 (Some ?o))\<rparr>"
  have ok: "DataFrame_ok df_objects"
    by (simp add: DataFrame_ok_def df_objects_def DataFrame_length_def Column_length_def)
  have col: "DataFrame_col df_objects ''o'' = Inr ?s"
    by (simp add: DataFrame_col_def df_objects_def)
  have len: "DataFrame_length df_objects = 2"
    by (simp add: df_objects_def DataFrame_length_def Column_length_def)
  have special: "evaluate (ComparisonExpr (ColumnExpr ''o'') (LiteralExpr (Some ?o)) Eq) df_objects =
       Inr \<lparr>series_name = [],
            series_column = BooleanColumn_from [Some (Bool True), Some (Bool False)]\<rparr>"
    using cmp_column_literal_eq [OF col, of "Some ?o" Eq] by (simp add: cmp_cell_def)
  have ls: "Series_length ?s = Series_length ?lit"
    by (simp add: Series_length_def Column_length_def)
  have "cmp_general (Inr ?s) (Inr ?lit) Eq =
       Inr \<lparr>series_name = [],
            series_column = BooleanColumn_from [Some (Bool False), Some (Bool False)]\<rparr>"
    unfolding cmp_general_def binary_loop_total [OF ls]
    by (simp add: literal_cells_object Series_length_def Column_length_def cmp_cell_def
        upt_rec [of 0] upt_rec [of 1])
  then have general: "cmp_general (evaluate (ColumnExpr ''o'') df_objects)
         (evaluate (LiteralExpr (Some ?o)) df_objects) Eq =
       Inr \<lparr>series_name = [],
            series_column = BooleanColumn_from [Some (Bool False), Some (Bool False)]\<rparr>"
    using col len by simp
  have "BooleanColumn_from [Some (Bool True), Some (Bool False)] \<noteq>
        BooleanColumn_from [Some (Bool False), Some (Bool False)]"
    by (simp add: BooleanColumn_from_def)
  then show ?thesis using ok special general by simp
qed

text \<open>
  The same happens for a \<open>Date\<close> literal that the column holds: the general path compares
  the cell with the \<open>Date\<close> that the read of the literal's date column builds, which is
  another object.
\<close>

lemma comparison_special_case_differs_on_held_date:
  "evaluate (ComparisonExpr (ColumnExpr ''o'') (LiteralExpr (Some (DateV (Some 2) 0))) Eq)
       df_objects =
     Inr \<lparr>series_name = [],
          series_column = BooleanColumn_from [Some (Bool False), Some (Bool True)]\<rparr>
   \<and> cmp_general (evaluate (ColumnExpr ''o'') df_objects)
         (evaluate (LiteralExpr (Some (DateV (Some 2) 0))) df_objects) Eq =
     Inr \<lparr>series_name = [],
          series_column = BooleanColumn_from [Some (Bool False), Some (Bool False)]\<rparr>"
  by code_simp

text \<open>
  Claim C9, amended. On a table that satisfies its invariant, the two special-cased
  shapes of a comparison (column against literal, literal against column) return exactly
  what the general path returns on the two evaluated operands, for every column name and
  operator, and for every literal that is null, a number, a string or a boolean; and for
  a \<open>Date\<close> literal when the operator is an ordering, or when no cell of the named column
  is that \<open>Date\<close> object. A missing column fails alike on both paths.
\<close>

theorem comparison_special_case_refines_general_kept_literal:
  assumes ok: "DataFrame_ok df"
    and lit: "kept_literal literal
              \<or> (date_literal literal \<and> (is_ordering op \<or> \<not> column_holds df n literal))"
  shows "evaluate (ComparisonExpr (ColumnExpr n) (LiteralExpr literal) op) df =
           cmp_general (evaluate (ColumnExpr n) df) (evaluate (LiteralExpr literal) df) op
       \<and> evaluate (ComparisonExpr (LiteralExpr literal) (ColumnExpr n) op) df =
           cmp_general (evaluate (LiteralExpr literal) df) (evaluate (ColumnExpr n) df) op"
proof (cases "DataFrame_col df n")
  case (Inl e)
  then show ?thesis
    by (simp add: cmp_column_literal_def cmp_literal_column_def cmp_general_def binary_loop_def)
next
  case (Inr s)
  let ?lit = "\<lparr>series_name = ''literal'', series_column =
      buildColumnForValues (detectLiteralDType literal) (replicate (DataFrame_length df) literal)\<rparr>"
  have len: "Series_length s = DataFrame_length df"
    using ok Inr by (rule DataFrame_col_length)
  have llen: "Series_length ?lit = DataFrame_length df"
    by (simp add: Series_length_def Column_length_def)
  have cell: "\<And>i. i < DataFrame_length df \<Longrightarrow>
      cmp_cell op (cells (series_column s) ! i) (cells (series_column ?lit) ! i) =
        cmp_cell op (cells (series_column s) ! i) literal
      \<and> cmp_cell op (cells (series_column ?lit) ! i) (cells (series_column s) ! i) =
        cmp_cell op literal (cells (series_column s) ! i)"
  proof -
    fix i assume i: "i < DataFrame_length df"
    let ?a = "cells (series_column s) ! i"
    from lit consider (kept) "kept_literal literal"
      | (date) "date_literal literal" "is_ordering op \<or> \<not> column_holds df n literal"
      by blast
    then show "cmp_cell op ?a (cells (series_column ?lit) ! i) = cmp_cell op ?a literal
      \<and> cmp_cell op (cells (series_column ?lit) ! i) ?a = cmp_cell op literal ?a"
    proof cases
      case kept
      then show ?thesis using i by (simp add: literal_cells_kept)
    next
      case date
      then obtain r t where d: "literal = Some (DateV r t)"
        by (cases literal rule: date_literal.cases) simp_all
      have il: "i < length (cells (series_column s))"
        using i len by (simp add: Series_length_def Column_length_def)
      have "is_ordering op \<or> ?a = None \<or> \<not> strict_eq (the ?a) (DateV r t)"
        using date(2) d column_holds_D [OF Inr _ il, of "DateV r t"] by blast
      then show ?thesis using i d cmp_cell_date_read_back [of op ?a r t]
        by (simp add: literal_cells_date)
    qed
  qed
  have m1: "map (\<lambda>i. cmp_cell op (cells (series_column s) ! i)
                    (cells (series_column ?lit) ! i)) [0..<Series_length s] =
            map (\<lambda>a. cmp_cell op a literal) (cells (series_column s))"
    using len cell by (intro nth_equalityI) (simp_all add: Series_length_def Column_length_def)
  have m2: "map (\<lambda>i. cmp_cell op (cells (series_column ?lit) ! i)
                    (cells (series_column s) ! i)) [0..<Series_length ?lit] =
            map (\<lambda>b. cmp_cell op literal b) (cells (series_column s))"
    using len cell by (intro nth_equalityI) (simp_all add: Series_length_def Column_length_def)
  have g1: "cmp_general (Inr s) (Inr ?lit) op =
      Inr \<lparr>series_name = [], series_column = BooleanColumn_from
            (map (\<lambda>a. cmp_cell op a literal) (cells (series_column s)))\<rparr>"
    unfolding cmp_general_def using binary_loop_total [of s ?lit BooleanColumn_from "cmp_cell op"]
      len llen m1 by simp
  have g2: "cmp_general (Inr ?lit) (Inr s) op =
      Inr \<lparr>series_name = [], series_column = BooleanColumn_from
            (map (\<lambda>b. cmp_cell op literal b) (cells (series_column s)))\<rparr>"
    unfolding cmp_general_def using binary_loop_total [of ?lit s BooleanColumn_from "cmp_cell op"]
      len llen m2 by simp
  show ?thesis
    using Inr g1 g2 cmp_column_literal_eq [OF Inr] cmp_literal_column_eq [OF Inr] by simp
qed

theorem comparison_special_case_refines_general_kept_literal_witness:
  "DataFrame_ok df0 \<and> kept_literal (Some (Num 2))
   \<and> evaluate (ComparisonExpr (ColumnExpr ''a'') (LiteralExpr (Some (Num 2))) Gt) df0 =
     cmp_general (evaluate (ColumnExpr ''a'') df0) (evaluate (LiteralExpr (Some (Num 2))) df0) Gt
   \<and> evaluate (ComparisonExpr (LiteralExpr (Some (Num 2))) (ColumnExpr ''a'') Gt) df0 =
     cmp_general (evaluate (LiteralExpr (Some (Num 2))) df0) (evaluate (ColumnExpr ''a'') df0) Gt
   \<and> evaluate (ComparisonExpr (ColumnExpr ''a'') (LiteralExpr (Some (Num 2))) Gt) df0 =
     Inr \<lparr>series_name = [],
          series_column = BooleanColumn_from [Some (Bool False), None, Some (Bool True)]\<rparr>
   \<and> evaluate (ComparisonExpr (LiteralExpr (Some (Num 2))) (ColumnExpr ''a'') Gt) df0 =
     Inr \<lparr>series_name = [],
          series_column = BooleanColumn_from [Some (Bool True), None, Some (Bool False)]\<rparr>
   \<and> date_literal (Some (DateV (Some 2) 0)) \<and> is_ordering Lt
   \<and> evaluate (ComparisonExpr (ColumnExpr ''o'') (LiteralExpr (Some (DateV (Some 2) 0))) Lt)
       df_objects =
     cmp_general (evaluate (ColumnExpr ''o'') df_objects)
       (evaluate (LiteralExpr (Some (DateV (Some 2) 0))) df_objects) Lt"
proof -
  have ok: "DataFrame_ok df0" by code_simp
  have lit: "kept_literal (Some (Num 2))" by simp
  have e1: "evaluate (ComparisonExpr (ColumnExpr ''a'') (LiteralExpr (Some (Num 2))) Gt) df0 =
     Inr \<lparr>series_name = [],
          series_column = BooleanColumn_from [Some (Bool False), None, Some (Bool True)]\<rparr>"
    by code_simp
  have e2: "evaluate (ComparisonExpr (LiteralExpr (Some (Num 2))) (ColumnExpr ''a'') Gt) df0 =
     Inr \<lparr>series_name = [],
          series_column = BooleanColumn_from [Some (Bool True), None, Some (Bool False)]\<rparr>"
    by code_simp
  have ok2: "DataFrame_ok df_objects" by code_simp
  have d: "date_literal (Some (DateV (Some 2) 0))" "is_ordering Lt" by simp_all
  show ?thesis
    using comparison_special_case_refines_general_kept_literal
            [of df0 "Some (Num 2)" Gt "''a''"]
      comparison_special_case_refines_general_kept_literal
            [of df_objects "Some (DateV (Some 2) 0)" Lt "''o''"]
      ok lit e1 e2 ok2 d by simp
qed

section \<open>\<open>isNull\<close> and \<open>isNotNull\<close>\<close>

text \<open>
  Claim C10. Where the inner expression evaluates, \<open>isNull\<close> and \<open>isNotNull\<close> evaluate
  to series of the same length whose cells are never null: \<open>isNull\<close> is true exactly at
  the null rows of the inner series, and \<open>isNotNull\<close> is its negation.
\<close>

theorem isNull_isNotNull_total:
  assumes s: "evaluate inner df = Inr s"
  shows "\<exists>r1 r2. evaluate (IsNullExpr inner) df = Inr r1
           \<and> evaluate (IsNotNullExpr inner) df = Inr r2
           \<and> Series_length r1 = Series_length s \<and> Series_length r2 = Series_length s
           \<and> (\<forall>i < Series_length s. \<exists>a. Series_get s i = Inr a
                 \<and> Series_get r1 i = Inr (Some (Bool (a = None)))
                 \<and> Series_get r2 i = Inr (Some (Bool (a \<noteq> None))))"
proof -
  let ?r1 = "\<lparr>series_name = [], series_column = BooleanColumn_from
      (map (\<lambda>v. Some (Bool (v = None))) (cells (series_column s)))\<rparr>"
  let ?r2 = "\<lparr>series_name = [], series_column = BooleanColumn_from
      (map (\<lambda>v. Some (Bool (v \<noteq> None))) (cells (series_column s)))\<rparr>"
  have e1: "evaluate (IsNullExpr inner) df = Inr ?r1" using s by (simp add: unary_loop_total)
  have e2: "evaluate (IsNotNullExpr inner) df = Inr ?r2" using s by (simp add: unary_loop_total)
  have l1: "Series_length ?r1 = Series_length s" by (simp add: Series_length_def Column_length_def)
  have l2: "Series_length ?r2 = Series_length s" by (simp add: Series_length_def Column_length_def)
  have rows: "\<forall>i < Series_length s. \<exists>a. Series_get s i = Inr a
                 \<and> Series_get ?r1 i = Inr (Some (Bool (a = None)))
                 \<and> Series_get ?r2 i = Inr (Some (Bool (a \<noteq> None)))"
    by (simp add: Series_get_cell Series_length_def Column_length_def)
  show ?thesis using e1 e2 l1 l2 rows by blast
qed

theorem isNull_isNotNull_total_witness:
  "evaluate (IsNullExpr (ColumnExpr ''a'')) df0 =
     Inr \<lparr>series_name = [],
          series_column = BooleanColumn_from [Some (Bool False), Some (Bool True), Some (Bool False)]\<rparr>
   \<and> evaluate (IsNotNullExpr (ColumnExpr ''a'')) df0 =
     Inr \<lparr>series_name = [],
          series_column = BooleanColumn_from [Some (Bool True), Some (Bool False), Some (Bool True)]\<rparr>
   \<and> (\<exists>r1 r2. evaluate (IsNullExpr (ColumnExpr ''a'')) df0 = Inr r1
         \<and> evaluate (IsNotNullExpr (ColumnExpr ''a'')) df0 = Inr r2
         \<and> Series_length r1 = 3 \<and> Series_length r2 = 3)"
proof -
  let ?a = "\<lparr>series_name = ''a'',
      series_column = Float64Column_from [Some (Num 1), None, Some (Num 3)]\<rparr>"
  have a: "evaluate (ColumnExpr ''a'') df0 = Inr ?a" by code_simp
  have l: "Series_length ?a = 3" by code_simp
  have e1: "evaluate (IsNullExpr (ColumnExpr ''a'')) df0 =
     Inr \<lparr>series_name = [],
          series_column = BooleanColumn_from [Some (Bool False), Some (Bool True), Some (Bool False)]\<rparr>"
    by code_simp
  have e2: "evaluate (IsNotNullExpr (ColumnExpr ''a'')) df0 =
     Inr \<lparr>series_name = [],
          series_column = BooleanColumn_from [Some (Bool True), Some (Bool False), Some (Bool True)]\<rparr>"
    by code_simp
  have "\<exists>r1 r2. evaluate (IsNullExpr (ColumnExpr ''a'')) df0 = Inr r1
         \<and> evaluate (IsNotNullExpr (ColumnExpr ''a'')) df0 = Inr r2
         \<and> Series_length r1 = 3 \<and> Series_length r2 = 3"
    using isNull_isNotNull_total [OF a] l by auto
  then show ?thesis using e1 e2 by blast
qed

section \<open>Partitioning and the order of the merged results\<close>

lemma round_robin_Suc:
  assumes "0 < w"
  shows "round_robin ge w (Suc k) =
     (round_robin ge w k)[k mod w := round_robin ge w k ! (k mod w) @ [(k, snd (ge ! k))]]"
proof (rule nth_equalityI)
  show "length (round_robin ge w (Suc k)) = length ((round_robin ge w k)[k mod w :=
      round_robin ge w k ! (k mod w) @ [(k, snd (ge ! k))]])"
    by (simp add: round_robin_def)
next
  fix q assume "q < length (round_robin ge w (Suc k))"
  then have q: "q < w" by (simp add: round_robin_def)
  have p: "k mod w < w" using assms by simp
  show "round_robin ge w (Suc k) ! q = (round_robin ge w k)[k mod w :=
      round_robin ge w k ! (k mod w) @ [(k, snd (ge ! k))]] ! q"
  proof (cases "q = k mod w")
    case True
    then show ?thesis using q by (simp add: round_robin_def)
  next
    case False
    then show ?thesis using q p by (simp add: round_robin_def)
  qed
qed

lemma push_group_ok:
  assumes "0 < wc" "length parts = nat wc"
  shows "push_group ge wc i (Inr parts) =
           Inr (parts[i mod nat wc := parts ! (i mod nat wc) @ [(i, snd (ge ! i))]])"
  using assms by (simp add: push_group_def js_rem_def)

lemma partition_loop:
  assumes "0 < wc"
  shows "fold (push_group ge wc) [0..<k] (Inr (replicate (nat wc) [])) =
           Inr (round_robin ge (nat wc) k)"
proof (induction k)
  case 0
  show ?case by (simp add: round_robin_def) (rule nth_equalityI, simp_all)
next
  case (Suc k)
  have len: "length (round_robin ge (nat wc) k) = nat wc" by (simp add: round_robin_def)
  have w: "0 < nat wc" using assms by simp
  show ?case
    using Suc push_group_ok [OF assms len, of ge k] round_robin_Suc [OF w, of ge k]
    by simp
qed

lemma partitionGroups_round_robin:
  assumes "0 < wc \<or> ge = []"
  shows "partitionGroups ge wc = Inr (round_robin ge (nat wc) (length ge))"
proof (cases "0 < wc")
  case True
  then show ?thesis unfolding partitionGroups_def by (rule partition_loop)
next
  case False
  then have "ge = []" using assms by simp
  then show ?thesis
    by (simp add: partitionGroups_def round_robin_def) (rule nth_equalityI, simp_all)
qed

lemma mset_concat_update:
  assumes "p < length xs"
  shows "mset (concat (xs[p := xs ! p @ [x]])) = add_mset x (mset (concat xs))"
proof -
  have a: "xs = take p xs @ xs ! p # drop (Suc p) xs" using assms by (rule id_take_nth_drop)
  have b: "xs[p := xs ! p @ [x]] = take p xs @ (xs ! p @ [x]) # drop (Suc p) xs"
    using assms by (rule upd_conv_take_nth_drop)
  have "mset (concat (take p xs @ (xs ! p @ [x]) # drop (Suc p) xs)) =
        add_mset x (mset (concat (take p xs @ xs ! p # drop (Suc p) xs)))"
    by simp
  then show ?thesis using a b by simp
qed

lemma mset_concat_round_robin:
  assumes "0 < w"
  shows "mset (concat (round_robin ge w k)) = mset (map (\<lambda>i. (i, snd (ge ! i))) [0..<k])"
proof (induction k)
  case 0
  show ?case by (simp add: round_robin_def)
next
  case (Suc k)
  have "k mod w < length (round_robin ge w k)" using assms by (simp add: round_robin_def)
  then show ?case using Suc round_robin_Suc [OF assms, of ge k]
    by (simp add: mset_concat_update)
qed

lemma filter_eq_single: "distinct ys \<Longrightarrow> k \<in> set ys \<Longrightarrow> filter (\<lambda>x. k = x) ys = [k]"
  by (induction ys) (auto simp: filter_empty_conv)

lemma mset_eq_single: "mset xs = mset [k] \<Longrightarrow> xs = [k]"
  by simp

lemma sort_key_unique:
  assumes m: "mset xs = mset ys" and s: "sorted (map f ys)" and d: "distinct (map f ys)"
  shows "sort_key f xs = ys"
proof (rule properties_for_sort_key)
  show "mset ys = mset xs" using m by simp
  show "sorted (map f ys)" by (rule s)
next
  fix k assume k: "k \<in> set ys"
  have inj: "inj_on f (set ys)" and dy: "distinct ys" using d by (auto simp: distinct_map)
  have "filter (\<lambda>x. f k = f x) ys = filter (\<lambda>x. k = x) ys"
    by (rule filter_cong) (use inj k in \<open>auto dest: inj_onD\<close>)
  then have a: "filter (\<lambda>x. f k = f x) ys = [k]"
    using filter_eq_single [OF dy k] by simp
  have "mset (filter (\<lambda>x. f k = f x) xs) = mset (filter (\<lambda>x. f k = f x) ys)"
    using m by (simp only: mset_filter)
  then have "mset (filter (\<lambda>x. f k = f x) xs) = mset [k]" by (simp only: a)
  then have "filter (\<lambda>x. f k = f x) xs = [k]" by (rule mset_eq_single)
  then show "filter (\<lambda>x. f k = f x) ys = filter (\<lambda>x. f k = f x) xs"
    using a by simp
qed

lemma fulfilled_values_map: "fulfilled_values (map Fulfilled xs) = Some xs"
  by (induction xs) simp_all

lemma rejections_none:
  "(\<And>p. p < length promises \<Longrightarrow> rejection_of (promises ! p) = None) \<Longrightarrow>
   rejections order promises = []"
  by (auto simp: rejections_def List.map_filter_def filter_empty_conv)

lemma promise_all_fulfilled: "promise_all order (map Fulfilled xs) = Fulfilled xs"
proof -
  have "rejections order (map Fulfilled xs) = []" by (rule rejections_none) simp
  then show ?thesis by (simp add: promise_all_def fulfilled_values_map)
qed

lemma on_message_message:
  "on_message \<lparr>msg_columns = serializedColumns src (neededColumns keys specs),
      msg_groups = part, msg_aggSpecs = specs, msg_keyColumns = keys\<rparr> =
   map (worker_group_result src keys specs) part"
  by (simp add: on_message_def worker_group_result_def)

lemma groupIndex_result [simp]: "groupIndex (worker_group_result src keys specs g) = fst g"
  by (simp add: worker_group_result_def group_result_def Let_def)

lemma round_robin_nth:
  "q < w \<Longrightarrow> round_robin ge w k ! q =
      map (\<lambda>i. (i, snd (ge ! i))) (filter (\<lambda>i. i mod w = q) [0..<k])"
  by (simp add: round_robin_def)

lemma round_robin_member:
  assumes "i < n" "q < w"
  shows "(i, snd (ge ! i)) \<in> set (round_robin ge w n ! q) \<longleftrightarrow> q = i mod w"
  using assms by (auto simp: round_robin_nth)

lemma effective_cases:
  assumes "1 \<le> (case opt of None \<Rightarrow> dflt | Some w \<Rightarrow> w)"
  shows "0 < effective_workerCount opt dflt (length ge) \<or> ge = []"
    and "nat (effective_workerCount opt dflt (length ge)) \<le> length ge"
  using assms by (auto simp: effective_workerCount_def min_def)

text \<open>
  Claim C4. With a requested worker count of at least 1 and workers that answer,
  \<open>partitionGroups\<close> puts the group at position \<open>i\<close> into partition \<open>i mod workerCount\<close> and
  no other, with its position; and \<open>parallelAgg\<close> returns one result per group, in
  ascending group position, whatever the order in which the workers answer.
\<close>

theorem parallelAgg_in_group_order:
  assumes req: "1 \<le> (case optWorkerCount of None \<Rightarrow> defaultWorkerCount | Some w \<Rightarrow> w)"
    and healthy: "\<forall>p. faults p = None"
  shows "partitionGroups groupEntries
           (effective_workerCount optWorkerCount defaultWorkerCount (length groupEntries)) =
         Inr (round_robin groupEntries
           (nat (effective_workerCount optWorkerCount defaultWorkerCount (length groupEntries)))
           (length groupEntries))
     \<and> (\<forall>i < length groupEntries.
          \<forall>q < nat (effective_workerCount optWorkerCount defaultWorkerCount (length groupEntries)).
            (i, snd (groupEntries ! i)) \<in> set (round_robin groupEntries
               (nat (effective_workerCount optWorkerCount defaultWorkerCount (length groupEntries)))
               (length groupEntries) ! q)
            \<longleftrightarrow> q = i mod nat (effective_workerCount optWorkerCount defaultWorkerCount
                                  (length groupEntries)))
     \<and> parallelAgg order faults defaultWorkerCount groupEntries keyColumnNames aggSpecs
           sourceColumns optWorkerCount =
         Fulfilled (map (\<lambda>i. worker_group_result sourceColumns keyColumnNames aggSpecs
                               (i, snd (groupEntries ! i)))
                      [0..<length groupEntries])"
proof -
  let ?n = "length groupEntries"
  let ?wc = "effective_workerCount optWorkerCount defaultWorkerCount ?n"
  let ?w = "nat ?wc"
  let ?parts = "round_robin groupEntries ?w ?n"
  let ?gr = "worker_group_result sourceColumns keyColumnNames aggSpecs"
  let ?message = "\<lambda>partition. \<lparr>msg_columns =
      serializedColumns sourceColumns (neededColumns keyColumnNames aggSpecs),
      msg_groups = partition, msg_aggSpecs = aggSpecs, msg_keyColumns = keyColumnNames\<rparr>"
  have pg: "partitionGroups groupEntries ?wc = Inr ?parts"
    by (rule partitionGroups_round_robin) (rule effective_cases(1) [OF req])
  have mem: "\<forall>i < ?n. \<forall>q < ?w.
      (i, snd (groupEntries ! i)) \<in> set (?parts ! q) \<longleftrightarrow> q = i mod ?w"
    using round_robin_member by blast
  have wp: "\<And>pp. worker_promise faults ?message pp = Fulfilled (map ?gr (snd pp))"
    using healthy by (simp add: worker_promise_def on_message_message)
  have promises: "map (worker_promise faults ?message) (zip [0..<length ?parts] ?parts) =
      map Fulfilled (map (map ?gr) ?parts)"
    by (rule nth_equalityI) (simp_all add: wp)
  have all: "promise_all order (map (worker_promise faults ?message)
      (zip [0..<length ?parts] ?parts)) = Fulfilled (map (map ?gr) ?parts)"
    by (simp only: promises promise_all_fulfilled)
  have conc: "concat (map (map ?gr) ?parts) = map ?gr (concat ?parts)"
    by (simp add: map_concat)
  have ms: "mset (concat ?parts) = mset (map (\<lambda>i. (i, snd (groupEntries ! i))) [0..<?n])"
  proof (cases "0 < ?w")
    case True
    then show ?thesis by (rule mset_concat_round_robin)
  next
    case False
    then have "groupEntries = []" using effective_cases(1) [OF req, of groupEntries] by simp
    then show ?thesis by (simp add: round_robin_def)
  qed
  let ?target = "map (\<lambda>i. ?gr (i, snd (groupEntries ! i))) [0..<?n]"
  have keys: "map groupIndex ?target = [0..<?n]"
    by (rule nth_equalityI) simp_all
  have t: "?target = map ?gr (map (\<lambda>i. (i, snd (groupEntries ! i))) [0..<?n])" by simp
  have "mset (map ?gr (concat ?parts)) = image_mset ?gr (mset (concat ?parts))" by simp
  also have "\<dots> = image_mset ?gr (mset (map (\<lambda>i. (i, snd (groupEntries ! i))) [0..<?n]))"
    by (simp only: ms)
  also have "\<dots> = mset ?target" by (simp only: t mset_map)
  finally have "mset (map ?gr (concat ?parts)) = mset ?target" .
  moreover have "sorted (map groupIndex ?target)" by (simp only: keys sorted_upt)
  moreover have "distinct (map groupIndex ?target)" by (simp only: keys distinct_upt)
  ultimately have srt: "sort_key groupIndex (map ?gr (concat ?parts)) = ?target"
    by (rule sort_key_unique)
  have "parallelAgg order faults defaultWorkerCount groupEntries keyColumnNames aggSpecs
           sourceColumns optWorkerCount = Fulfilled ?target"
    unfolding parallelAgg_def Let_def effective_workerCount_def [symmetric]
    by (simp only: pg all conc srt sum.case outcome.case)
  then show ?thesis using pg mem by blast
qed

text \<open>The definitions that evaluate the coordinator and the worker on concrete input.\<close>

lemmas worker_eval =
  computeAgg_def process_column_def serializeColumn_def Float64Column_from_def
  BooleanColumn_from_def Utf8Column_from_def
  getValue_def getNumericValue_def getStringValue_def buffer_read_def nullCount_def Column_length_def
  float64_element_def string_element_def uint8_element_def
  w_std_step_def w_sum_step_def Let_def build_mask_def mask_step_def mask_set_def
  mask_null_def idx_sar_def idx_band_def js_sar_def js_band_def
  sync_group_agg_def Column_take_def evaluateColumn_def
  SumAggExpr_evaluateColumn_def sum_step_def StdAggExpr_evaluateColumn_def std_push_def
  group_result_def worker_group_result_def
  serializedColumns_def neededColumns_def set_add_def List.map_filter_simps

theorem parallelAgg_in_group_order_witness:
  "partitionGroups sales_groups 2 = Inr [[(0, [0, 2, 4])], [(1, [1, 3])]]
   \<and> parallelAgg [1, 0] (\<lambda>p. None) 4 sales_groups [''region''] sales_specs sales_columns (Some 2)
       = Fulfilled
           [\<lparr>groupIndex = 0, keyValues = [Some (Str ''East'')],
             aggValues = [(''total'', Some (Num 500))]\<rparr>,
            \<lparr>groupIndex = 1, keyValues = [Some (Str ''West'')],
             aggValues = [(''total'', Some (Num 500))]\<rparr>]"
proof -
  have req: "1 \<le> (case Some 2 of None \<Rightarrow> 4 | Some w \<Rightarrow> (w::int))" by simp
  have healthy: "\<forall>p. (\<lambda>p. None :: fault option) p = None" by simp
  have wc: "effective_workerCount (Some 2) 4 (length sales_groups) = 2"
    by (simp add: effective_workerCount_def sales_groups_def)
  have up: "[0..<length sales_groups] = [0, Suc 0]"
    by (simp add: sales_groups_def upt_rec)
  have rr: "round_robin sales_groups 2 (length sales_groups) = [[(0, [0, 2, 4])], [(1, [1, 3])]]"
    unfolding round_robin_def up by (simp add: sales_groups_def upt_rec)
  have g0: "worker_group_result sales_columns [''region''] sales_specs (0, snd (sales_groups ! 0)) =
       \<lparr>groupIndex = 0, keyValues = [Some (Str ''East'')],
             aggValues = [(''total'', Some (Num 500))]\<rparr>"
    by (simp add: worker_eval sales_columns_def sales_specs_def sales_groups_def)
  have g1: "worker_group_result sales_columns [''region''] sales_specs
        (Suc 0, snd (sales_groups ! Suc 0)) =
       \<lparr>groupIndex = 1, keyValues = [Some (Str ''West'')],
             aggValues = [(''total'', Some (Num 500))]\<rparr>"
    by (simp add: worker_eval sales_columns_def sales_specs_def sales_groups_def)
  note inst = parallelAgg_in_group_order [OF req healthy, of sales_groups "[1, 0]"
      "[''region'']" sales_specs sales_columns]
  from inst have pg: "partitionGroups sales_groups 2 = Inr [[(0, [0, 2, 4])], [(1, [1, 3])]]"
    by (simp add: wc rr)
  from inst have "parallelAgg [1, 0] (\<lambda>p. None) 4 sales_groups [''region''] sales_specs
      sales_columns (Some 2) =
      Fulfilled (map (\<lambda>i. worker_group_result sales_columns [''region''] sales_specs
                               (i, snd (sales_groups ! i))) [0, Suc 0])"
    by (simp only: up)
  then have pa: "parallelAgg [1, 0] (\<lambda>p. None) 4 sales_groups [''region''] sales_specs
      sales_columns (Some 2) =
      Fulfilled [\<lparr>groupIndex = 0, keyValues = [Some (Str ''East'')],
             aggValues = [(''total'', Some (Num 500))]\<rparr>,
            \<lparr>groupIndex = 1, keyValues = [Some (Str ''West'')],
             aggValues = [(''total'', Some (Num 500))]\<rparr>]"
    by (simp only: list.map g0 g1)
  show ?thesis using pg pa by (rule conjI)
qed

section \<open>A failing worker rejects the whole call\<close>

lemma set_map_filter_conv:
  "set (List.map_filter f xs) = {y. \<exists>x \<in> set xs. f x = Some y}"
  by (induction xs) (auto split: option.splits)

lemma rejection_of_Some: "rejection_of x = Some e \<longleftrightarrow> x = Rejected e"
  by (cases x) simp_all

lemma set_rejections:
  "set (rejections order promises) =
     {e. \<exists>p < length promises. promises ! p = Rejected e}"
  unfolding rejections_def set_map_filter_conv
  by (auto simp: rejection_of_Some split: if_splits)

lemma promise_all_rejects:
  assumes "p < length promises" "promises ! p = Rejected e"
  shows "\<exists>e'. promise_all order promises = Rejected e'
            \<and> (\<exists>q < length promises. promises ! q = Rejected e')"
proof -
  have "e \<in> set (rejections order promises)" using assms by (auto simp: set_rejections)
  then obtain e' rest where r: "rejections order promises = e' # rest"
    by (cases "rejections order promises") auto
  then have "e' \<in> set (rejections order promises)" by simp
  then have "\<exists>q < length promises. promises ! q = Rejected e'" by (simp add: set_rejections)
  then show ?thesis using r by (simp add: promise_all_def)
qed

lemma round_robin_nonempty:
  assumes "q < w" "w \<le> n"
  shows "round_robin ge w n ! q \<noteq> []"
proof -
  have "q \<in> set (filter (\<lambda>i. i mod w = q) [0..<n])" using assms by simp
  then have "filter (\<lambda>i. i mod w = q) [0..<n] \<noteq> []" by (metis empty_iff empty_set)
  then show ?thesis using assms by (simp add: round_robin_nth)
qed

text \<open>
  Claim C5. When a worker emits an error, \<open>parallelAgg\<close> rejects with the error of a
  failed worker and returns no result list; when one worker alone fails, it rejects
  with that worker's error.
\<close>

theorem parallelAgg_rejects_on_worker_error:
  assumes req: "1 \<le> (case optWorkerCount of None \<Rightarrow> defaultWorkerCount | Some w \<Rightarrow> w)"
    and p: "p < nat (effective_workerCount optWorkerCount defaultWorkerCount (length groupEntries))"
    and crash: "faults p = Some (Crash e)"
  shows "(\<exists>e'. parallelAgg order faults defaultWorkerCount groupEntries keyColumnNames aggSpecs
                 sourceColumns optWorkerCount = Rejected e'
             \<and> (\<exists>q < nat (effective_workerCount optWorkerCount defaultWorkerCount
                              (length groupEntries)). faults q = Some (Crash e')))
       \<and> ((\<forall>q e'. faults q = Some (Crash e') \<longrightarrow> q = p) \<longrightarrow>
            parallelAgg order faults defaultWorkerCount groupEntries keyColumnNames aggSpecs
                 sourceColumns optWorkerCount = Rejected e)"
proof -
  let ?n = "length groupEntries"
  let ?wc = "effective_workerCount optWorkerCount defaultWorkerCount ?n"
  let ?w = "nat ?wc"
  let ?parts = "round_robin groupEntries ?w ?n"
  let ?message = "\<lambda>partition. \<lparr>msg_columns =
      serializedColumns sourceColumns (neededColumns keyColumnNames aggSpecs),
      msg_groups = partition, msg_aggSpecs = aggSpecs, msg_keyColumns = keyColumnNames\<rparr>"
  let ?promises = "map (worker_promise faults ?message) (zip [0..<length ?parts] ?parts)"
  have pg: "partitionGroups groupEntries ?wc = Inr ?parts"
    by (rule partitionGroups_round_robin) (rule effective_cases(1) [OF req])
  have wn: "?w \<le> ?n" by (rule effective_cases(2) [OF req])
  have len: "length ?promises = ?w" by (simp add: round_robin_def)
  have nth: "\<And>q. q < ?w \<Longrightarrow> ?promises ! q =
      (case faults q of None \<Rightarrow> Fulfilled (on_message (?message (?parts ! q)))
       | Some (Crash e) \<Rightarrow> Rejected e | Some Hang \<Rightarrow> Pending)"
  proof -
    fix q assume q: "q < ?w"
    have lp: "length ?parts = ?w" by (simp add: round_robin_def)
    have "?promises ! q = worker_promise faults ?message (q, ?parts ! q)"
      using q lp by simp
    moreover have "?parts ! q \<noteq> []" using q wn by (rule round_robin_nonempty)
    ultimately show "?promises ! q =
      (case faults q of None \<Rightarrow> Fulfilled (on_message (?message (?parts ! q)))
       | Some (Crash e) \<Rightarrow> Rejected e | Some Hang \<Rightarrow> Pending)"
      by (simp add: worker_promise_def split: option.splits fault.splits)
  qed
  have pp: "?promises ! p = Rejected e" using nth [OF p] crash by simp
  have rej: "\<And>q e'. q < ?w \<Longrightarrow> ?promises ! q = Rejected e' \<Longrightarrow> faults q = Some (Crash e')"
    using nth by (auto split: option.splits fault.splits)
  obtain e' where e': "promise_all order ?promises = Rejected e'"
      and q: "\<exists>q < length ?promises. ?promises ! q = Rejected e'"
    using promise_all_rejects [of p ?promises e order] p len pp by auto
  have res: "parallelAgg order faults defaultWorkerCount groupEntries keyColumnNames aggSpecs
                 sourceColumns optWorkerCount = Rejected e'"
    unfolding parallelAgg_def Let_def effective_workerCount_def [symmetric]
    by (simp only: pg e' sum.case outcome.case)
  from q obtain q where q: "q < ?w" "faults q = Some (Crash e')"
    using rej len by auto
  have single: "(\<forall>q e'. faults q = Some (Crash e') \<longrightarrow> q = p) \<longrightarrow> e' = e"
    using q crash by auto
  show ?thesis using res q single by blast
qed

theorem parallelAgg_rejects_on_worker_error_witness:
  "parallelAgg [0, 1] (\<lambda>p. if p = 1 then Some (Crash (WorkerError ''out of memory'')) else None)
      4 sales_groups [''region''] sales_specs sales_columns (Some 2)
     = Rejected (WorkerError ''out of memory'')"
proof -
  let ?faults = "\<lambda>p::nat. if p = 1 then Some (Crash (WorkerError ''out of memory'')) else None"
  have req: "1 \<le> (case Some 2 of None \<Rightarrow> 4 | Some w \<Rightarrow> (w::int))" by simp
  have p: "1 < nat (effective_workerCount (Some 2) 4 (length sales_groups))"
    by (simp add: effective_workerCount_def sales_groups_def)
  have crash: "?faults 1 = Some (Crash (WorkerError ''out of memory''))" by simp
  have only: "\<forall>q e'. ?faults q = Some (Crash e') \<longrightarrow> q = 1" by simp
  show ?thesis
    using parallelAgg_rejects_on_worker_error [where optWorkerCount = "Some 2"
        and defaultWorkerCount = 4 and p = 1 and groupEntries = sales_groups
        and faults = ?faults and e = "WorkerError ''out of memory''" and order = "[0, 1]"
        and keyColumnNames = "[''region'']" and aggSpecs = sales_specs
        and sourceColumns = sales_columns] req p crash only
    by blast
qed

section \<open>Reading a serialized column in the worker\<close>

text \<open>The integer operators on an index below \<open>2^31\<close>, and the bit that the mask loop
  sets and the reader tests.\<close>

lemma js_sar_3:
  assumes "i < 2 ^ 31"
  shows "js_sar i 3 = int (i div 8)"
proof -
  have "sint (word_of_nat i :: 32 word) = signed_take_bit 31 (int i)"
    by (simp add: signed_of_nat)
  also have "\<dots> = int i"
    using assms by (intro signed_take_bit_int_eq_self) simp_all
  finally have s: "sint (word_of_nat i :: 32 word) = int i" .
  have "js_sar i 3 = drop_bit 3 (int i)"
    by (simp add: js_sar_def sint_signed_drop_bit_eq s)
  also have "\<dots> = int (i div 8)"
    by (simp add: drop_bit_eq_div zdiv_int)
  finally show ?thesis .
qed

lemma js_band_7: "js_band i 7 = i mod 8"
proof -
  have "(7 :: 32 word) = mask 3" by (simp add: mask_eq_exp_minus_1)
  then have "(word_of_nat i :: 32 word) AND word_of_nat 7 = take_bit 3 (word_of_nat i)"
    by (simp add: take_bit_eq_mask)
  then have "js_band i 7 = take_bit 3 (take_bit 32 i)"
    by (simp add: js_band_def unsigned_take_bit_eq unsigned_of_nat)
  also have "\<dots> = i mod 8" by (simp add: take_bit_eq_mod mod_mod_cancel)
  finally show ?thesis .
qed

lemma bit_mask_set:
  "m < 8 \<Longrightarrow> bit ((w :: 8 word) OR push_bit m 1) b \<longleftrightarrow> bit w b \<or> b = m"
  by (auto simp: bit_simps)

lemma mask_test: "(drop_bit b (w :: 8 word)) AND 1 = 0 \<longleftrightarrow> \<not> bit w b"
  by (simp add: and_one_eq bit_iff_odd_drop_bit even_iff_mod_2_eq_zero)

lemma build_mask_fold:
  "build_mask vs = fold (mask_step vs) [0..<length vs] (replicate ((length vs + 7) div 8) 0)"
  by (simp add: build_mask_def)

lemma div_mod_8_eq: "j div 8 = k div 8 \<Longrightarrow> j mod 8 = k mod 8 \<Longrightarrow> j = (k::nat)"
proof -
  assume a: "j div 8 = k div 8" "j mod 8 = k mod 8"
  have "j = 8 * (j div 8) + j mod 8" by simp
  also have "\<dots> = 8 * (k div 8) + k mod 8" by (simp only: a)
  also have "\<dots> = k" by simp
  finally show ?thesis .
qed

lemma byte_index_bound: "j < n \<Longrightarrow> j div 8 < (n + 7) div (8::nat)"
  by (simp add: div_less_iff_less_mult) 

lemma mask_loop_invariant:
  assumes n: "length vs \<le> 2 ^ 31" and k: "k \<le> length vs"
  shows "length (fold (mask_step vs) [0..<k] (replicate ((length vs + 7) div 8) 0))
           = (length vs + 7) div 8
       \<and> (\<forall>j < length vs.
            bit (fold (mask_step vs) [0..<k] (replicate ((length vs + 7) div 8) 0) ! (j div 8))
                (j mod 8)
            \<longleftrightarrow> j < k \<and> vs ! j \<noteq> None)"
  using k
proof (induction k)
  case 0
  show ?case by (simp add: byte_index_bound)
next
  case (Suc k)
  let ?M = "fold (mask_step vs) [0..<k] (replicate ((length vs + 7) div 8) 0)"
  have kn: "k < length vs" and kle: "k \<le> length vs" using Suc.prems by simp_all
  note ih = Suc.IH [OF kle]
  from ih have len: "length ?M = (length vs + 7) div 8" by (rule conjunct1)
  from ih have bits: "\<forall>j < length vs. bit (?M ! (j div 8)) (j mod 8) \<longleftrightarrow> j < k \<and> vs ! j \<noteq> None"
    by (rule conjunct2)
  have f: "fold (mask_step vs) [0..<Suc k] (replicate ((length vs + 7) div 8) 0) = mask_step vs k ?M"
    by simp
  show ?case
  proof (cases "vs ! k = None")
    case True
    have same: "mask_step vs k ?M = ?M" using True by (simp add: mask_step_def)
    have "\<forall>j < length vs. bit (?M ! (j div 8)) (j mod 8) \<longleftrightarrow> j < Suc k \<and> vs ! j \<noteq> None"
    proof (intro allI impI)
      fix j assume j: "j < length vs"
      have "(j < Suc k \<and> vs ! j \<noteq> None) \<longleftrightarrow> (j < k \<and> vs ! j \<noteq> None)"
        using True by (cases "j = k") auto
      then show "bit (?M ! (j div 8)) (j mod 8) \<longleftrightarrow> j < Suc k \<and> vs ! j \<noteq> None"
        using bits j by blast
    qed
    then show ?thesis unfolding f same using len by blast
  next
    case False
    have k31: "k < 2 ^ 31" using kn n by simp
    have kb: "k div 8 < length ?M" using kn len by (simp add: byte_index_bound)
    have ms: "mask_step vs k ?M = ?M[k div 8 := (?M ! (k div 8)) OR push_bit (k mod 8) 1]"
      using False kb by (simp add: mask_step_def mask_set_def js_sar_3 [OF k31] js_band_7)
    let ?N = "?M[k div 8 := (?M ! (k div 8)) OR push_bit (k mod 8) 1]"
    have lenN: "length ?N = (length vs + 7) div 8" using len by simp
    have "\<forall>j < length vs. bit (?N ! (j div 8)) (j mod 8) \<longleftrightarrow> j < Suc k \<and> vs ! j \<noteq> None"
    proof (intro allI impI)
      fix j assume j: "j < length vs"
      have old: "bit (?M ! (j div 8)) (j mod 8) \<longleftrightarrow> j < k \<and> vs ! j \<noteq> None"
        using bits j by blast
      show "bit (?N ! (j div 8)) (j mod 8) \<longleftrightarrow> j < Suc k \<and> vs ! j \<noteq> None"
      proof (cases "j div 8 = k div 8")
        case True
        have nth: "?N ! (j div 8) = (?M ! (k div 8)) OR push_bit (k mod 8) 1"
          using True kb by simp
        have m8: "k mod 8 < 8" by simp
        have eq: "j mod 8 = k mod 8 \<longleftrightarrow> j = k" using True div_mod_8_eq by blast
        have "bit (?N ! (j div 8)) (j mod 8) \<longleftrightarrow> bit (?M ! (k div 8)) (j mod 8) \<or> j = k"
          unfolding nth bit_mask_set [OF m8] eq ..
        also have "\<dots> \<longleftrightarrow> (j < k \<and> vs ! j \<noteq> None) \<or> j = k"
          using old True by simp
        also have "\<dots> \<longleftrightarrow> j < Suc k \<and> vs ! j \<noteq> None"
          using False by (auto simp: less_Suc_eq)
        finally show ?thesis .
      next
        case neq: False
        have jk: "j \<noteq> k" using neq by blast
        have "?N ! (j div 8) = ?M ! (j div 8)" using neq by simp
        then have "bit (?N ! (j div 8)) (j mod 8) \<longleftrightarrow> j < k \<and> vs ! j \<noteq> None"
          using old by simp
        also have "\<dots> \<longleftrightarrow> j < Suc k \<and> vs ! j \<noteq> None"
          using jk by (auto simp: less_Suc_eq)
        finally show ?thesis .
      qed
    qed
    then show ?thesis unfolding f ms using lenN by blast
  qed
qed

lemma mask_null_build_mask:
  assumes n: "length vs \<le> 2 ^ 31" and i: "i < length vs"
  shows "mask_null (build_mask vs) (Some i) \<longleftrightarrow> vs ! i = None"
proof -
  note inv = mask_loop_invariant [OF n order_refl]
  have len: "length (build_mask vs) = (length vs + 7) div 8"
    unfolding build_mask_fold using inv by blast
  have bit: "bit (build_mask vs ! (i div 8)) (i mod 8) \<longleftrightarrow> vs ! i \<noteq> None"
    unfolding build_mask_fold using inv i by blast
  have i31: "i < 2 ^ 31" using i n by simp
  have ib: "i div 8 < length (build_mask vs)" using i len by (simp add: byte_index_bound)
  have "mask_null (build_mask vs) (Some i) \<longleftrightarrow>
          drop_bit (i mod 8) (build_mask vs ! (i div 8)) AND 1 = 0"
    using ib by (simp add: mask_null_def idx_sar_def idx_band_def js_sar_3 [OF i31] js_band_7)
  then show ?thesis using bit by (simp add: mask_test)
qed

text \<open>
  On a typed column of at most \<open>2^31\<close> rows and of type \<open>float64\<close>, \<open>int32\<close>, \<open>date\<close> or
  \<open>utf8\<close>, the worker reads at every position what the column holds there, null for
  null, a date as its time value.
\<close>

lemma nullCount_zero_iff: "nullCount c = 0 \<longleftrightarrow> None \<notin> set (cells c)"
proof -
  have "nullCount c = 0 \<longleftrightarrow> (\<forall>v \<in> set (cells c). v \<noteq> None)"
    by (simp add: nullCount_def filter_empty_conv)
  moreover have "(\<forall>v \<in> set (cells c). v \<noteq> None) \<longleftrightarrow> None \<notin> set (cells c)" by metis
  ultimately show ?thesis by simp
qed

lemma serialized_null_test:
  assumes len: "Column_length c \<le> 2 ^ 31" and i: "i < Column_length c"
  shows "(case (if nullCount c > 0 then Some (build_mask (cells c)) else None) of
            None \<Rightarrow> False | Some m \<Rightarrow> mask_null m (Some i))
         \<longleftrightarrow> cells c ! i = None"
proof (cases "nullCount c > 0")
  case True
  then show ?thesis
    using mask_null_build_mask [of "cells c" i] len i by (simp add: Column_length_def)
next
  case False
  then have "None \<notin> set (cells c)" by (simp add: nullCount_zero_iff)
  then have "cells c ! i \<noteq> None" using i by (metis Column_length_def nth_mem)
  then show ?thesis using False by simp
qed

lemma int32_roundtrip:
  assumes "r = of_int \<lfloor>r\<rfloor>" "- (2 ^ 31) \<le> \<lfloor>r\<rfloor>" "\<lfloor>r\<rfloor> < 2 ^ 31"
  shows "real_of_int (sint (toInt32 r)) = r"
proof -
  have t: "trunc_int r = \<lfloor>r\<rfloor>" using assms(1) by (simp add: trunc_int_def) (metis ceiling_of_int)
  have "sint (word_of_int \<lfloor>r\<rfloor> :: 32 word) = signed_take_bit 31 \<lfloor>r\<rfloor>"
    by (simp add: sint_sbintrunc')
  also have "\<dots> = \<lfloor>r\<rfloor>" using assms(2,3) by (intro signed_take_bit_int_eq_self) simp_all
  finally show ?thesis using assms(1) by (simp add: toInt32_def t)
qed

lemma serialize_roundtrip:
  assumes typed: "Column_typed c" and dt: "dtype c \<in> {Float64, Int32, Date, Utf8}"
    and len: "Column_length c \<le> 2 ^ 31" and i: "i < Column_length c"
  shows "getValue (process_column (serializeColumn name c)) (Some i) =
           map_option worker_repr (cells c ! i)"
proof (cases "cells c ! i")
  case None
  then have nt: "(case (if nullCount c > 0 then Some (build_mask (cells c)) else None) of
            None \<Rightarrow> False | Some m \<Rightarrow> mask_null m (Some i))"
    using serialized_null_test [OF len i] by simp
  from dt consider "dtype c = Float64" | "dtype c = Int32" | "dtype c = Date" | "dtype c = Utf8"
    by auto
  then show ?thesis
    using nt None
    by cases (simp_all add: serializeColumn_def process_column_def getValue_def
        getNumericValue_def getStringValue_def Let_def)
next
  case (Some x)
  then have nt: "\<not> (case (if nullCount c > 0 then Some (build_mask (cells c)) else None) of
            None \<Rightarrow> False | Some m \<Rightarrow> mask_null m (Some i))"
    using serialized_null_test [OF len i] by simp
  have il: "i < length (cells c)" using i by (simp add: Column_length_def)
  have "Some x \<in> set (cells c)" using Some il by (metis nth_mem)
  then have ty: "cell_has_type (dtype c) x"
    using typed by (auto simp: Column_typed_def list_all_iff)
  from dt consider (f) "dtype c = Float64" | (i32) "dtype c = Int32" | (d) "dtype c = Date"
    | (u) "dtype c = Utf8"
    by auto
  then show ?thesis
  proof cases
    case f
    then obtain r where "x = Num r" using ty by (cases x) simp_all
    then show ?thesis using f nt Some il
      by (simp add: serializeColumn_def process_column_def getValue_def getNumericValue_def
          Let_def buffer_read_def float64_element_def)
  next
    case i32
    then obtain r where x: "x = Num r" and r: "r = of_int \<lfloor>r\<rfloor>" "- (2 ^ 31) \<le> \<lfloor>r\<rfloor>" "\<lfloor>r\<rfloor> < 2 ^ 31"
      using ty by (cases x) simp_all
    show ?thesis using i32 nt Some il x int32_roundtrip [OF r]
      by (simp add: serializeColumn_def process_column_def getValue_def getNumericValue_def
          Let_def buffer_read_def int32_element_def)
  next
    case d
    then obtain r t where "x = DateV r t" using ty by (cases x) simp_all
    then show ?thesis using d nt Some il
      by (simp add: serializeColumn_def process_column_def getValue_def getNumericValue_def
          Let_def buffer_read_def float64_element_def)
  next
    case u
    then obtain s where "x = Str s" using ty by (cases x) simp_all
    then show ?thesis using u nt Some il
      by (simp add: serializeColumn_def process_column_def getValue_def getStringValue_def
          Let_def buffer_read_def string_element_def)
  qed
qed

lemma boolean_always_null:
  "dtype c = Boolean \<Longrightarrow> getValue (process_column (serializeColumn name c)) index = None"
  by (simp add: serializeColumn_def process_column_def getValue_def getNumericValue_def Let_def)

text \<open>
  The shift \<open>index >> 3\<close> is a 32-bit operation: at position \<open>2^31\<close> the byte index is
  negative and the reader answers null whatever the mask holds.
\<close>

lemma mask_null_beyond_int32: "mask_null m (Some (2 ^ 31)) = True"
  by (simp add: mask_null_def idx_sar_def idx_band_def js_sar_def)

text \<open>
  On typed \<open>float64\<close>, \<open>int32\<close> and \<open>utf8\<close> columns the worker computes what the synchronous
  path computes for a group, for every aggregate but \<open>std\<close>, and for \<open>sum\<close> when the
  group has a number.
\<close>

lemma worker_reads_group:
  assumes typed: "Column_typed c" and dt: "dtype c \<in> {Float64, Int32, Utf8}"
    and len: "Column_length c \<le> 2 ^ 31" and idx: "\<forall>i \<in> set indices. i < Column_length c"
  shows "map (\<lambda>i. getValue (process_column (serializeColumn name c)) (Some i)) indices =
           map (\<lambda>i. cells c ! i) indices"
    and "take_cells (cells c) indices = Inr (map (\<lambda>i. cells c ! i) indices)"
proof -
  have repr: "\<And>i. i < Column_length c \<Longrightarrow> map_option worker_repr (cells c ! i) = cells c ! i"
  proof -
    fix i assume i: "i < Column_length c"
    show "map_option worker_repr (cells c ! i) = cells c ! i"
    proof (cases "cells c ! i")
      case None then show ?thesis by simp
    next
      case (Some x)
      have "Some x \<in> set (cells c)" using Some i by (metis Column_length_def nth_mem)
      then have "cell_has_type (dtype c) x"
        using typed by (auto simp: Column_typed_def list_all_iff)
      then have "worker_repr x = x" using dt by (cases x) auto
      then show ?thesis using Some by simp
    qed
  qed
  have dt': "dtype c \<in> {Float64, Int32, Date, Utf8}" using dt by auto
  show "map (\<lambda>i. getValue (process_column (serializeColumn name c)) (Some i)) indices =
           map (\<lambda>i. cells c ! i) indices"
    using idx serialize_roundtrip [OF typed dt' len] repr by simp
  show "take_cells (cells c) indices = Inr (map (\<lambda>i. cells c ! i) indices)"
    using idx by (induction indices) (simp_all add: Column_length_def)
qed

lemma fold_w_sum_step:
  "fold w_sum_step vs (a, h) = (a + sum_list (numeric_cells vs), h \<or> numeric_cells vs \<noteq> [])"
  by (induction vs arbitrary: a h rule: numeric_cells.induct) (simp_all add: w_sum_step_def)

lemma w_steps_eq:
  "w_mean_step = mean_step" "w_count_step = count_step" "w_min_step = min_step"
  "w_max_step = max_step"
  by (intro ext, simp add: w_mean_step_def mean_step_def w_count_step_def count_step_def
      w_min_step_def min_step_def w_max_step_def max_step_def)+

lemma set_add_map_key:
  assumes x: "by_value x" and seen: "\<forall>y \<in> set seen. by_value y"
  shows "set_add (toComparableKey x) (map toComparableKey seen) =
           map toComparableKey (set_add x seen)"
proof -
  have "toComparableKey x \<in> toComparableKey ` set seen \<longleftrightarrow> x \<in> set seen"
    using x seen toComparableKey_inj by blast
  then show ?thesis by (simp add: set_add_def)
qed

lemma fold_distinct_steps:
  assumes vs: "\<forall>v \<in> set vs. \<forall>x. v = Some x \<longrightarrow> by_value x"
    and seen: "\<forall>y \<in> set seen. by_value y"
  shows "fold distinct_step vs (map toComparableKey seen) =
     map toComparableKey (fold w_distinct_step vs seen)"
  using vs seen
proof (induction vs arbitrary: seen)
  case Nil then show ?case by simp
next
  case (Cons v vs)
  have rest: "\<forall>v \<in> set vs. \<forall>x. v = Some x \<longrightarrow> by_value x" using Cons.prems(1) by simp
  show ?case
  proof (cases v)
    case None
    then show ?thesis using Cons.IH [OF rest Cons.prems(2)]
      by (simp add: distinct_step_def w_distinct_step_def)
  next
    case (Some x)
    have x: "by_value x" using Cons.prems(1) Some by simp
    have seen': "\<forall>y \<in> set (set_add x seen). by_value y"
      using x Cons.prems(2) by (simp add: set_add_def)
    show ?thesis using Some Cons.IH [OF rest seen'] set_add_map_key [OF x Cons.prems(2)]
      by (simp add: distinct_step_def w_distinct_step_def)
  qed
qed

lemma parallel_agrees_with_sync:
  assumes typed: "Column_typed c" and dt: "dtype c \<in> {Float64, Int32, Utf8}"
    and len: "Column_length c \<le> 2 ^ 31" and idx: "\<forall>i \<in> set indices. i < Column_length c"
    and agg: "agg \<noteq> AggStd"
    and nonempty: "agg = AggSum \<longrightarrow> numeric_cells (map (\<lambda>i. cells c ! i) indices) \<noteq> []"
  shows "sync_group_agg agg c indices =
           Inr (computeAgg (process_column (serializeColumn name c)) indices agg)"
proof -
  let ?vs = "map (\<lambda>i. cells c ! i) indices"
  note rd = worker_reads_group(1) [OF typed dt len idx, of name]
    worker_reads_group(2) [OF typed dt len idx]
  have sync: "sync_group_agg agg c indices =
      Inr (evaluateColumn agg \<lparr>dtype = dtype c, cells = ?vs\<rparr>)"
    by (simp add: sync_group_agg_def Column_take_def rd(2))
  have bv: "\<forall>v \<in> set ?vs. \<forall>x. v = Some x \<longrightarrow> by_value x"
  proof (intro ballI allI impI)
    fix v x assume v: "v \<in> set ?vs" and vx: "v = Some x"
    then obtain i where "i \<in> set indices" "cells c ! i = Some x" by auto
    then have "Some x \<in> set (cells c)" using idx by (metis Column_length_def nth_mem)
    then have "cell_has_type (dtype c) x"
      using typed by (auto simp: Column_typed_def list_all_iff)
    then show "by_value x" using dt by (cases x) auto
  qed
  have cd: "length (fold distinct_step ?vs []) = length (fold w_distinct_step ?vs [])"
    using fold_distinct_steps [OF bv, of "[]"] by simp
  have "evaluateColumn agg \<lparr>dtype = dtype c, cells = ?vs\<rparr> =
      computeAgg (process_column (serializeColumn name c)) indices agg"
    using agg nonempty
    by (cases agg)
      (simp_all add: evaluateColumn_def computeAgg_def rd(1) Let_def w_steps_eq
        SumAggExpr_evaluateColumn_def fold_sum_step fold_w_sum_step
        MeanAggExpr_evaluateColumn_def CountAggExpr_evaluateColumn_def
        CountDistinctAggExpr_evaluateColumn_def cd
        MinAggExpr_evaluateColumn_def MaxAggExpr_evaluateColumn_def
        FirstAggExpr_evaluateColumn_def LastAggExpr_evaluateColumn_def
        split: prod.splits)
  then show ?thesis using sync by simp
qed

section \<open>Where the worker departs from the synchronous path\<close>

text \<open>
  Claim C7 fails on boolean columns. \<open>serializeColumn\<close> writes a boolean column as bytes
  0 and 1 and the worker builds a \<open>Uint8Array\<close> over them, but \<open>getValue\<close> sends every
  type other than \<open>utf8\<close> to \<open>getNumericValue\<close>, which returns \<open>null\<close> for \<open>boolean\<close>: the
  cell \<open>true\<close> at position 0 reads back as \<open>null\<close>.
\<close>

theorem boolean_column_reads_back_null:
  "Column_get (BooleanColumn_from [Some (Bool True), Some (Bool False)]) 0 = Inr (Some (Bool True))
   \<and> getValue (process_column (serializeColumn ''flag''
         (BooleanColumn_from [Some (Bool True), Some (Bool False)]))) (Some 0) = None"
  by (simp add: worker_eval Column_get_def)

text \<open>
  Claim C1 fails on \<open>std\<close>. On the group of the two values 1 and 3 the synchronous path
  returns the sample standard deviation \<open>sqrt 2\<close>, and the worker (alone, and through
  \<open>parallelAgg\<close>) returns 1, the population standard deviation; they differ by more than
  \<open>1e-5\<close>. On an all-null group \<open>sum\<close> is 0 on the synchronous path and \<open>null\<close> in the
  worker; on a date column \<open>min\<close> is \<open>null\<close> on the synchronous path, for which a \<open>Date\<close> is
  not a number, and a time value in the worker.
\<close>

theorem parallel_std_differs_from_sync:
  "sync_group_agg AggStd (Float64Column_from [Some (Num 1), Some (Num 3)]) [0, 1]
     = Inr (Some (Num (sqrt 2)))
   \<and> computeAgg (process_column (serializeColumn ''x''
         (Float64Column_from [Some (Num 1), Some (Num 3)]))) [0, 1] AggStd = Some (Num 1)
   \<and> parallelAgg [] (\<lambda>p. None) 2 [(''k'', [0, 1])] []
         [(''s'', \<lparr>columnName = ''x'', aggType = AggStd\<rparr>)]
         [(''x'', Float64Column_from [Some (Num 1), Some (Num 3)])] None
       = Fulfilled [\<lparr>groupIndex = 0, keyValues = [], aggValues = [(''s'', Some (Num 1))]\<rparr>]
   \<and> 1 / 100000 < sqrt 2 - 1
   \<and> sync_group_agg AggSum (Float64Column_from [None, None]) [0, 1] = Inr (Some (Num 0))
   \<and> computeAgg (process_column (serializeColumn ''x''
         (Float64Column_from [None, None]))) [0, 1] AggSum = None
   \<and> sync_group_agg AggMin (DateColumn_from [Some (DateV None 5)]) [0] = Inr None
   \<and> computeAgg (process_column (serializeColumn ''d''
         (DateColumn_from [Some (DateV None 5)]))) [0] AggMin = Some (Num 5)"
proof -
  have a: "sync_group_agg AggStd (Float64Column_from [Some (Num 1), Some (Num 3)]) [0, 1]
     = Inr (Some (Num (sqrt 2)))"
    by (simp add: worker_eval)
  have b: "computeAgg (process_column (serializeColumn ''x''
         (Float64Column_from [Some (Num 1), Some (Num 3)]))) [0, 1] AggStd = Some (Num 1)"
    by (simp add: worker_eval)
  have c: "parallelAgg [] (\<lambda>p. None) 2 [(''k'', [0, 1])] []
         [(''s'', \<lparr>columnName = ''x'', aggType = AggStd\<rparr>)]
         [(''x'', Float64Column_from [Some (Num 1), Some (Num 3)])] None
       = Fulfilled [\<lparr>groupIndex = 0, keyValues = [], aggValues = [(''s'', Some (Num 1))]\<rparr>]"
    by (simp add: worker_eval parallelAgg_def partitionGroups_def push_group_def js_rem_def
        promise_all_def rejections_def worker_promise_def on_message_def)
  have "(100001 / 100000 :: real) ^ 2 < 2" by (simp add: power2_eq_square)
  then have "100001 / 100000 < sqrt 2" by (rule real_less_rsqrt)
  then have d: "1 / 100000 < sqrt 2 - 1" by simp
  have e: "sync_group_agg AggSum (Float64Column_from [None, None]) [0, 1] = Inr (Some (Num 0))"
    by (simp add: worker_eval)
  have f: "computeAgg (process_column (serializeColumn ''x''
         (Float64Column_from [None, None]))) [0, 1] AggSum = None"
    by (simp add: worker_eval)
  have g: "sync_group_agg AggMin (DateColumn_from [Some (DateV None 5)]) [0] = Inr None"
    by (simp add: worker_eval DateColumn_from_def MinAggExpr_evaluateColumn_def min_step_def)
  have h: "computeAgg (process_column (serializeColumn ''d''
         (DateColumn_from [Some (DateV None 5)]))) [0] AggMin = Some (Num 5)"
    by (simp add: worker_eval DateColumn_from_def w_min_step_def)
  show ?thesis using a b c d e f g h by blast
qed

end
